theory Spec2Isabelle
  imports Main "HOL-Library.Word"
begin

unbundle bit_operations_syntax

section \<open>Byte buffers\<close>

text \<open>
  A Node \<open>Buffer\<close> is a list of bytes. Indices and lengths are natural numbers; every
  index the frame codec reads is guarded by a length test in the source, and the guards are
  kept in the model. \<open>subarray\<close> clamps its bounds as \<open>Buffer.subarray\<close> does.
\<close>

type_synonym byte = "8 word"
type_synonym buffer = "byte list"

definition subarray :: "buffer \<Rightarrow> nat \<Rightarrow> nat \<Rightarrow> buffer" where
  "subarray b s e = take (e - s) (drop s b)"

text \<open>
  A JavaScript string that goes onto the wire is represented by its UTF-8 bytes, one
  \<open>char\<close> each, so \<open>Buffer.from(s, "utf8")\<close> is that byte sequence.
\<close>

definition utf8 :: "string \<Rightarrow> buffer" where
  "utf8 s = map (\<lambda>c. of_nat (of_char c)) s"

definition readUInt16BE :: "buffer \<Rightarrow> nat \<Rightarrow> nat" where
  "readUInt16BE b off = unat (b ! off) * 256 + unat (b ! (off + 1))"

definition readBigUInt64BE :: "buffer \<Rightarrow> nat \<Rightarrow> nat" where
  "readBigUInt64BE b off = foldl (\<lambda>acc x. acc * 256 + unat x) 0 (take 8 (drop off b))"

definition writeUInt16BE :: "nat \<Rightarrow> buffer" where
  "writeUInt16BE n = [of_nat (n div 256), of_nat n]"

definition writeBigUInt64BE :: "nat \<Rightarrow> buffer" where
  "writeBigUInt64BE n =
     [of_nat (n div 256 ^ 7), of_nat (n div 256 ^ 6), of_nat (n div 256 ^ 5), of_nat (n div 256 ^ 4),
      of_nat (n div 256 ^ 3), of_nat (n div 256 ^ 2), of_nat (n div 256), of_nat n]"

text \<open>
  \<open>Number(big)\<close> for a BigInt \<open>0 \<le> big < 2^64\<close>: the nearest IEEE-754 double (53
  significant bits), ties to even. Below \<open>2^53\<close> the conversion is exact.
\<close>

fun bit_length :: "nat \<Rightarrow> nat" where
  "bit_length n = (if n = 0 then 0 else Suc (bit_length (n div 2)))"

declare bit_length.simps [simp del]

definition Number :: "nat \<Rightarrow> nat" where
  "Number big =
     (if big < 2 ^ 53 then big
      else (let e = bit_length big - 53;
                q = big div 2 ^ e;
                r = big mod 2 ^ e;
                h = 2 ^ (e - 1)
            in if r < h \<or> (r = h \<and> even q) then q * 2 ^ e else (q + 1) * 2 ^ e))"

section \<open>Frame codec\<close>

record frame =
  opcode :: nat
  payload :: buffer

datatype parse_error = Fragmented

definition error_message :: "parse_error \<Rightarrow> string" where
  "error_message e = (case e of Fragmented \<Rightarrow> ''Fragmented frames not supported.'')"

subsection \<open>Encoding: the bytes \<open>sendWsFrame\<close> hands to \<open>socket.write\<close>\<close>

text \<open>
  \<open>header[0] = 0x80 | opcode\<close> stores into a byte, which keeps the low eight bits.
  The three branches are the source's: 2, 4 or 10 header bytes.
\<close>

definition frame_header :: "nat \<Rightarrow> nat \<Rightarrow> buffer" where
  "frame_header opc len =
     (if len < 126 then [of_nat (0x80 OR opc), of_nat len]
      else if len < 65536 then [of_nat (0x80 OR opc), 126] @ writeUInt16BE len
      else [of_nat (0x80 OR opc), 127] @ writeBigUInt64BE len)"

definition frame_bytes :: "nat \<Rightarrow> buffer \<Rightarrow> buffer" where
  "frame_bytes opc data = frame_header opc (length data) @ data"

subsection \<open>Decoding: \<open>parseWsFrames\<close>\<close>

definition unmask :: "buffer \<Rightarrow> buffer \<Rightarrow> buffer" where
  "unmask maskKey p = map (\<lambda>i. p ! i XOR maskKey ! (i mod 4)) [0..<length p]"

datatype step = Throw parse_error | Break | Push frame nat

text \<open>
  One pass through the body of the \<open>while\<close> loop at \<open>offset\<close> (the loop condition
  \<open>offset + 2 \<le> buffer.length\<close> has been checked by the caller): it throws, breaks, or pushes
  a frame and moves \<open>offset\<close> to \<open>frameEnd\<close>.

  \<open>frameStart + length\<close> is a sum of doubles in the source. It is exact below \<open>2^53\<close>;
  from \<open>2^53\<close> on, the exact and the rounded sum are both at least \<open>2^53\<close>, more than
  the length of any Buffer, so the comparison with \<open>buffer.length\<close> is the same.
\<close>

definition parse_step :: "buffer \<Rightarrow> nat \<Rightarrow> step" where
  "parse_step buffer offset =
     (let b0 = buffer ! offset;
          b1 = buffer ! (offset + 1);
          fin = (b0 AND 0x80 \<noteq> 0);
          opc = unat (b0 AND 0x0f);
          masked = (b1 AND 0x80 \<noteq> 0);
          len0 = unat (b1 AND 0x7f)
      in if \<not> fin then Throw Fragmented
         else if len0 = 126 \<and> offset + 4 > length buffer then Break
         else if len0 = 127 \<and> offset + 10 > length buffer then Break
         else
           (let len = (if len0 = 126 then readUInt16BE buffer (offset + 2)
                       else if len0 = 127 then Number (readBigUInt64BE buffer (offset + 2))
                       else len0);
                headerLen = (if len0 = 126 then 4 else if len0 = 127 then 10 else 2);
                maskLen = (if masked then 4 else 0);
                frameStart = offset + headerLen + maskLen;
                frameEnd = frameStart + len
            in if frameEnd > length buffer then Break
               else
                 (let p = subarray buffer frameStart frameEnd;
                      p' = (if masked
                            then unmask (subarray buffer (offset + headerLen) (offset + headerLen + 4)) p
                            else p)
                  in Push \<lparr>opcode = opc, payload = p'\<rparr> frameEnd)))"

lemma parse_step_Push_bounds:
  assumes "parse_step buffer offset = Push f e"
  shows "offset + 2 \<le> e \<and> e \<le> length buffer"
  using assms
  by (auto simp: parse_step_def Let_def split: if_splits)

function parse_loop :: "buffer \<Rightarrow> nat \<Rightarrow> frame list \<Rightarrow> parse_error + frame list \<times> buffer" where
  "parse_loop buffer offset frames =
     (if offset + 2 \<le> length buffer
      then (case parse_step buffer offset of
              Throw e \<Rightarrow> Inl e
            | Break \<Rightarrow> Inr (frames, subarray buffer offset (length buffer))
            | Push f frameEnd \<Rightarrow> parse_loop buffer frameEnd (frames @ [f]))
      else Inr (frames, subarray buffer offset (length buffer)))"
  by pat_completeness auto
termination
proof (relation "measure (\<lambda>(buffer, offset, frames). length buffer - offset)")
  show "wf (measure (\<lambda>(buffer, offset, frames). length buffer - offset))"
    by simp
next
  fix buffer :: buffer and offset :: nat and frames :: "frame list" and f e
  assume "offset + 2 \<le> length buffer" "parse_step buffer offset = Push f e"
  then show "((buffer, e, frames @ [f]), (buffer, offset, frames))
      \<in> measure (\<lambda>(buffer, offset, frames). length buffer - offset)"
    using parse_step_Push_bounds [of buffer offset f e] by (simp, arith)
qed

declare parse_loop.simps [simp del]

definition parseWsFrames :: "buffer \<Rightarrow> parse_error + frame list \<times> buffer" where
  "parseWsFrames buffer = parse_loop buffer 0 []"

text \<open>Frames decoded earlier, put in front of a later result.\<close>

definition prepend_frames ::
  "frame list \<Rightarrow> parse_error + frame list \<times> buffer \<Rightarrow> parse_error + frame list \<times> buffer" where
  "prepend_frames fs r = (case r of Inl e \<Rightarrow> Inl e | Inr (gs, rest) \<Rightarrow> Inr (fs @ gs, rest))"

section \<open>Transports and the session\<close>

text \<open>
  The client socket is the list of calls made on it, in order. The upstream WebSocket has
  its \<open>readyState\<close> and the list of calls made on it; \<open>close()\<close> moves a connecting
  or open WebSocket to \<open>CLOSING\<close> and leaves a closing or closed one as it is, as the
  WebSocket interface specifies. None of \<open>write\<close>, \<open>end\<close>, \<open>destroy\<close>,
  \<open>send\<close> (on an open WebSocket) and \<open>close\<close> throws, so the \<open>try\<close> blocks around
  them never reach their \<open>catch\<close>.
\<close>

datatype sock_event = Write buffer | End | Destroy | SetNoDelay

datatype ready_state = CONNECTING | OPEN | CLOSING | CLOSED

text \<open>\<open>Text b\<close> is the string \<open>b.toString("utf8")\<close>, kept as the bytes it is decoded from.\<close>

datatype upstream_msg = Text buffer | Binary buffer

datatype upstream_call = Send upstream_msg | Close

record upstream =
  readyState :: ready_state
  calls :: "upstream_call list"

record session =
  socket :: "sock_event list"
  upstream :: "upstream option"
  buf :: buffer
  connect_attempts :: nat

definition socket_write :: "session \<Rightarrow> buffer \<Rightarrow> session" where
  "socket_write s data = s\<lparr>socket := socket s @ [Write data]\<rparr>"

definition socket_end :: "session \<Rightarrow> session" where
  "socket_end s = s\<lparr>socket := socket s @ [End]\<rparr>"

definition socket_destroy :: "session \<Rightarrow> session" where
  "socket_destroy s = s\<lparr>socket := socket s @ [Destroy]\<rparr>"

definition socket_setNoDelay :: "session \<Rightarrow> session" where
  "socket_setNoDelay s = s\<lparr>socket := socket s @ [SetNoDelay]\<rparr>"

definition upstream_close :: "upstream \<Rightarrow> upstream" where
  "upstream_close u =
     u\<lparr>readyState := (if readyState u = CONNECTING \<or> readyState u = OPEN then CLOSING
                       else readyState u),
       calls := calls u @ [Close]\<rparr>"

definition upstream_send :: "session \<Rightarrow> upstream_msg \<Rightarrow> session" where
  "upstream_send s m =
     (case upstream s of
        None \<Rightarrow> s
      | Some u \<Rightarrow> s\<lparr>upstream := Some (u\<lparr>calls := calls u @ [Send m]\<rparr>)\<rparr>)"

subsection \<open>\<open>sendWsFrame\<close>, \<open>sendJson\<close>, \<open>sendPong\<close>\<close>

text \<open>
  The payload of \<open>sendWsFrame\<close> is a Buffer or a string at every call in the source.
  \<open>opts.opcode\<close> wins; otherwise \<open>opts.binary === true\<close> selects binary over text.
\<close>

datatype ws_payload = Buf buffer | Str string

record opts =
  opts_opcode :: "nat option"
  opts_binary :: "bool option"

definition sendWsFrame :: "session \<Rightarrow> ws_payload \<Rightarrow> opts \<Rightarrow> session" where
  "sendWsFrame s p ops =
     (let opc = (case opts_opcode ops of
                   Some c \<Rightarrow> c
                 | None \<Rightarrow> (if opts_binary ops = Some True then 0x2 else 0x1));
          data = (case p of Buf b \<Rightarrow> b | Str t \<Rightarrow> utf8 t)
      in socket_write s (frame_bytes opc data))"

text \<open>
  The two shapes of object handed to \<open>sendJson\<close>, and \<open>JSON.stringify\<close> on them: keys
  and string values are quoted, with the escapes of \<open>JSON.stringify\<close> for the quote, the
  backslash and the control characters.
\<close>

datatype json_msg = ErrorMsg string | ProxyReady

definition hex_digit :: "nat \<Rightarrow> char" where
  "hex_digit n = ''0123456789abcdef'' ! (n mod 16)"

definition json_escape :: "char \<Rightarrow> string" where
  "json_escape c =
     (if c = CHR 0x22 then [CHR 0x5C, CHR 0x22]
      else if c = CHR 0x5C then [CHR 0x5C, CHR 0x5C]
      else if c = CHR 0x08 then [CHR 0x5C, CHR ''b'']
      else if c = CHR 0x0C then [CHR 0x5C, CHR ''f'']
      else if c = CHR 0x0A then [CHR 0x5C, CHR ''n'']
      else if c = CHR 0x0D then [CHR 0x5C, CHR ''r'']
      else if c = CHR 0x09 then [CHR 0x5C, CHR ''t'']
      else if (of_char c :: nat) < 0x20
        then [CHR 0x5C, CHR ''u'', CHR ''0'', CHR ''0'',
              hex_digit (of_char c div 16), hex_digit (of_char c)]
      else [c])"

definition json_quote :: "string \<Rightarrow> string" where
  "json_quote t = [CHR 0x22] @ concat (map json_escape t) @ [CHR 0x22]"

definition JSON_stringify :: "json_msg \<Rightarrow> string" where
  "JSON_stringify obj =
     (case obj of
        ErrorMsg m \<Rightarrow>
          ''{'' @ json_quote ''type'' @ '':'' @ json_quote ''error'' @ '',''
              @ json_quote ''error'' @ '':'' @ json_quote m @ ''}''
      | ProxyReady \<Rightarrow> ''{'' @ json_quote ''type'' @ '':'' @ json_quote ''proxy.ready'' @ ''}'')"

definition sendJson :: "session \<Rightarrow> json_msg \<Rightarrow> session" where
  "sendJson s obj =
     sendWsFrame s (Str (JSON_stringify obj)) \<lparr>opts_opcode = None, opts_binary = Some False\<rparr>"

definition sendPong :: "session \<Rightarrow> buffer \<Rightarrow> session" where
  "sendPong s p = sendWsFrame s (Buf p) \<lparr>opts_opcode = Some 0xA, opts_binary = None\<rparr>"

subsection \<open>The relay bridge\<close>

definition closeBoth :: "session \<Rightarrow> session" where
  "closeBoth s =
     socket_end (case upstream s of
                   None \<Rightarrow> s
                 | Some u \<Rightarrow> s\<lparr>upstream := Some (upstream_close u)\<rparr>)"

text \<open>\<open>!upstream || upstream.readyState !== WebSocket.OPEN\<close>, negated.\<close>

definition upstream_open :: "session \<Rightarrow> bool" where
  "upstream_open s = (case upstream s of None \<Rightarrow> False | Some u \<Rightarrow> readyState u = OPEN)"

text \<open>The \<open>for\<close> loop over the parsed frames; \<open>return\<close> after \<open>closeBoth\<close> ends it.\<close>

fun handle_frames :: "session \<Rightarrow> frame list \<Rightarrow> session" where
  "handle_frames s [] = s"
| "handle_frames s (f # fs) =
     (if \<not> upstream_open s then handle_frames s fs
      else if opcode f = 0x8 then closeBoth s
      else if opcode f = 0x9 then handle_frames (sendPong s (payload f)) fs
      else if opcode f = 0xa then handle_frames s fs
      else if opcode f \<noteq> 0x1 \<and> opcode f \<noteq> 0x2 then handle_frames s fs
      else if opcode f = 0x1 then handle_frames (upstream_send s (Text (payload f))) fs
      else handle_frames (upstream_send s (Binary (payload f))) fs)"

text \<open>The \<open>data\<close> handler of the client socket.\<close>

definition on_data :: "session \<Rightarrow> buffer \<Rightarrow> session" where
  "on_data s chunk =
     (let s1 = s\<lparr>buf := buf s @ chunk\<rparr>
      in case parseWsFrames (buf s1) of
           Inl e \<Rightarrow> closeBoth (sendJson s1 (ErrorMsg (error_message e)))
         | Inr (frames, remaining) \<Rightarrow> handle_frames (s1\<lparr>buf := remaining\<rparr>) frames)"

text \<open>The handlers of the upstream events; the runtime has set \<open>readyState\<close> before it calls them.\<close>

definition upstream_onopen :: "session \<Rightarrow> session" where
  "upstream_onopen s = sendJson s ProxyReady"

definition upstream_onerror :: "session \<Rightarrow> session" where
  "upstream_onerror s = closeBoth (sendJson s (ErrorMsg ''Upstream websocket error.''))"

definition upstream_onclose :: "session \<Rightarrow> session" where
  "upstream_onclose s = closeBoth s"

text \<open>
  The lifecycle state of the specification, read off the transports: a session whose client
  socket has been ended or destroyed, or whose upstream is absent, closing or closed, is
  \<open>Closed\<close>.
\<close>

datatype lifecycle = Connecting | Active | Closed

definition lifecycle_of :: "session \<Rightarrow> lifecycle" where
  "lifecycle_of s =
     (if End \<in> set (socket s) \<or> Destroy \<in> set (socket s) then Closed
      else (case upstream s of
              None \<Rightarrow> Closed
            | Some u \<Rightarrow>
                (case readyState u of
                   CONNECTING \<Rightarrow> Connecting
                 | OPEN \<Rightarrow> Active
                 | CLOSING \<Rightarrow> Closed
                 | CLOSED \<Rightarrow> Closed)))"

subsection \<open>The \<open>upgrade\<close> handler\<close>

text \<open>
  The request as the handler reads it: \<open>req.url\<close> and the \<open>Host\<close> header, from
  which it builds the URL, and the two WebSocket headers; each is absent or a string. The
  values of the environment are JavaScript strings, sequences of UTF-16 code units, so that
  \<open>trim\<close> removes what \<open>String.prototype.trim\<close> removes: the WhiteSpace and
  LineTerminator code points.
\<close>

record request =
  url :: "string option"
  host :: "string option"
  sec_websocket_key :: "string option"
  sec_websocket_version :: "string option"

type_synonym js_string = "16 word list"

record env =
  XAI_API_KEY :: "js_string option"
  XAI_REALTIME_WS_URL :: "js_string option"
  XAI_REALTIME_HEADERS_JSON :: "js_string option"

definition is_white_space :: "16 word \<Rightarrow> bool" where
  "is_white_space c =
     (c \<in> set [0x0009, 0x000A, 0x000B, 0x000C, 0x000D, 0x0020, 0x00A0, 0x1680,
                0x2028, 0x2029, 0x202F, 0x205F, 0x3000, 0xFEFF]
      \<or> (0x2000 \<le> c \<and> c \<le> 0x200A))"

definition trim :: "js_string \<Rightarrow> js_string" where
  "trim t = rev (dropWhile is_white_space (rev (dropWhile is_white_space t)))"

text \<open>
  What the runtime provides: the URL parser (\<open>new URL(input, base).pathname\<close>, or
  \<open>None\<close> when the constructor throws on an input or base it cannot parse), the SHA-1
  digest of a string in base64 (\<open>crypto.createHash("sha1").update(s).digest("base64")\<close>)
  and the WebSocket constructor called with the configured URL and headers, which returns a
  connecting WebSocket or throws an error with a message.
\<close>

record runtime =
  URL_pathname :: "string \<Rightarrow> string \<Rightarrow> string option"
  sha1_base64 :: "string \<Rightarrow> string"
  new_WebSocket :: "env \<Rightarrow> string + upstream"

definition join :: "string \<Rightarrow> string list \<Rightarrow> string" where
  "join sep xs = (case xs of [] \<Rightarrow> [] | x # rest \<Rightarrow> x @ concat (map (\<lambda>y. sep @ y) rest))"

definition crlf :: string where
  "crlf = [CHR 0x0D, CHR 0x0A]"

definition switching_protocols :: "string \<Rightarrow> string" where
  "switching_protocols accept =
     join crlf
       [''HTTP/1.1 101 Switching Protocols'',
        ''Upgrade: websocket'',
        ''Connection: Upgrade'',
        ''Sec-WebSocket-Accept: '' @ accept,
        crlf]"

definition bad_request :: string where
  "bad_request = ''HTTP/1.1 400 Bad Request'' @ crlf @ crlf"

text \<open>The handler from the configuration check on: the session after it has returned.\<close>

definition start_session :: "runtime \<Rightarrow> env \<Rightarrow> session \<Rightarrow> session" where
  "start_session rt e s =
     (let xaiKey = (case XAI_API_KEY e of Some v \<Rightarrow> v | None \<Rightarrow> []);
          upstreamUrl = (case XAI_REALTIME_WS_URL e of Some v \<Rightarrow> v | None \<Rightarrow> [])
      in if trim xaiKey = [] \<or> trim upstreamUrl = []
         then socket_end
                (sendWsFrame
                   (sendJson s
                      (ErrorMsg (if trim xaiKey = []
                                 then ''Missing XAI_API_KEY in pat/.env.local''
                                 else ''Missing XAI_REALTIME_WS_URL in pat/.env.local'')))
                   (Buf []) \<lparr>opts_opcode = None, opts_binary = Some False\<rparr>)
         else (case new_WebSocket rt e of
                 Inl msg \<Rightarrow>
                   socket_end
                     (sendJson (s\<lparr>connect_attempts := connect_attempts s + 1\<rparr>)
                        (ErrorMsg (''Failed to connect upstream: '' @ msg)))
               | Inr u \<Rightarrow> s\<lparr>upstream := Some u, connect_attempts := connect_attempts s + 1\<rparr>))"

text \<open>
  The handler from the test of \<open>url.pathname\<close> on, for a request whose URL has been
  parsed.
\<close>

definition on_upgrade_parsed :: "runtime \<Rightarrow> env \<Rightarrow> string \<Rightarrow> request \<Rightarrow> session" where
  "on_upgrade_parsed rt e pathname req =
     (let s = \<lparr>socket = [], upstream = None, buf = [], connect_attempts = 0\<rparr>
      in if pathname \<noteq> ''/voice'' then socket_destroy s
         else (case sec_websocket_key req of
                 None \<Rightarrow> socket_destroy (socket_write s (utf8 bad_request))
               | Some key \<Rightarrow>
                   if sec_websocket_version req \<noteq> Some ''13''
                   then socket_destroy (socket_write s (utf8 bad_request))
                   else
                     (let accept = sha1_base64 rt (key @ ''258EAFA5-E914-47DA-95CA-C5AB0DC85B11'')
                      in start_session rt e
                           (socket_setNoDelay
                              (socket_write s (utf8 (switching_protocols accept)))))))"

text \<open>
  The \<open>upgrade\<close> handler. Its first statement,
  \<open>new URL(req.url ?? "/", `http://${req.headers.host ?? "localhost"}`)\<close>, is in no
  \<open>try\<close> block: when the constructor throws, the handler ends with that error before it
  has made any call on the socket.
\<close>

datatype upgrade_error = Invalid_URL

definition request_pathname :: "runtime \<Rightarrow> request \<Rightarrow> string option" where
  "request_pathname rt req =
     URL_pathname rt (case url req of Some u \<Rightarrow> u | None \<Rightarrow> ''/'')
       (''http://'' @ (case host req of Some h \<Rightarrow> h | None \<Rightarrow> ''localhost''))"

definition on_upgrade :: "runtime \<Rightarrow> env \<Rightarrow> request \<Rightarrow> upgrade_error + session" where
  "on_upgrade rt e req =
     (case request_pathname rt req of
        None \<Rightarrow> Inl Invalid_URL
      | Some pathname \<Rightarrow> Inr (on_upgrade_parsed rt e pathname req))"

text \<open>A text frame that carries an object of the shape \<open>{"type":"error","error":...}\<close>.\<close>

definition is_error_message :: "frame \<Rightarrow> bool" where
  "is_error_message f =
     (let start = utf8 (''{'' @ json_quote ''type'' @ '':'' @ json_quote ''error'' @ '',''
                          @ json_quote ''error'' @ '':'')
      in opcode f = 0x1 \<and> take (length start) (payload f) = start)"

text \<open>The bytes written to the client socket, in order, as one stream.\<close>

definition written :: "sock_event list \<Rightarrow> buffer" where
  "written evs = concat (map (\<lambda>ev. case ev of Write b \<Rightarrow> b | _ \<Rightarrow> []) evs)"

text \<open>Two sessions after a successful upgrade: upstream open, and upstream still connecting.\<close>

definition active_example :: session where
  "active_example =
     \<lparr>socket = [], upstream = Some \<lparr>readyState = OPEN, calls = []\<rparr>, buf = [],
      connect_attempts = 1\<rparr>"

definition connecting_example :: session where
  "connecting_example =
     \<lparr>socket = [], upstream = Some \<lparr>readyState = CONNECTING, calls = []\<rparr>, buf = [],
      connect_attempts = 1\<rparr>"



text \<open>
  The message that names the missing value, and examples for the upgrade handler: a
  runtime, a valid request, an environment whose credential is only white space, and one
  that has a credential and no URL. The URL parser of the example runtime gives what
  \<open>new URL\<close> gives on the inputs of the examples: it throws on the request target
  \<open>//\<close> and on a host with a space in it, and the pathname of a target that starts
  with one slash ends at the query or fragment.
\<close>

definition missing_message :: "env \<Rightarrow> string" where
  "missing_message e =
     (if trim (case XAI_API_KEY e of Some v \<Rightarrow> v | None \<Rightarrow> []) = []
      then ''Missing XAI_API_KEY in pat/.env.local''
      else ''Missing XAI_REALTIME_WS_URL in pat/.env.local'')"

definition config_missing :: "env \<Rightarrow> bool" where
  "config_missing e =
     (trim (case XAI_API_KEY e of Some v \<Rightarrow> v | None \<Rightarrow> []) = []
      \<or> trim (case XAI_REALTIME_WS_URL e of Some v \<Rightarrow> v | None \<Rightarrow> []) = [])"

definition runtime_example :: runtime where
  "runtime_example =
     \<lparr>URL_pathname =
        (\<lambda>input base.
           if input = ''//'' \<or> CHR '' '' \<in> set base then None
           else Some (takeWhile (\<lambda>c. c \<noteq> CHR ''?'' \<and> c \<noteq> CHR ''#'') input)),
      sha1_base64 = (\<lambda>t. ''s3pPLMBiTxaQ9kYGzzhZRbK+xOo=''),
      new_WebSocket = (\<lambda>e. Inr \<lparr>readyState = CONNECTING, calls = []\<rparr>)\<rparr>"

definition request_example :: request where
  "request_example =
     \<lparr>url = Some ''/voice?session=1'', host = Some ''127.0.0.1:8787'',
      sec_websocket_key = Some ''dGhlIHNhbXBsZSBub25jZQ=='',
      sec_websocket_version = Some ''13''\<rparr>"

definition env_blank_key :: env where
  "env_blank_key =
     \<lparr>XAI_API_KEY = Some [0x0020, 0x0009], XAI_REALTIME_WS_URL = None,
      XAI_REALTIME_HEADERS_JSON = None\<rparr>"

definition env_no_url :: env where
  "env_no_url =
     \<lparr>XAI_API_KEY = Some [0x006B], XAI_REALTIME_WS_URL = None,
      XAI_REALTIME_HEADERS_JSON = None\<rparr>"

text \<open>A request for another path, and one with another protocol version.\<close>

definition request_other_path :: request where
  "request_other_path =
     \<lparr>url = Some ''/voice/'', host = Some ''127.0.0.1:8787'',
      sec_websocket_key = Some ''dGhlIHNhbXBsZSBub25jZQ=='',
      sec_websocket_version = Some ''13''\<rparr>"

definition request_version_8 :: request where
  "request_version_8 =
     \<lparr>url = Some ''/voice'', host = Some ''127.0.0.1:8787'',
      sec_websocket_key = Some ''dGhlIHNhbXBsZSBub25jZQ=='',
      sec_websocket_version = Some ''8''\<rparr>"

text \<open>A request for \<open>/voice\<close> with key and version 13 whose \<open>Host\<close> header is \<open>a b\<close>.\<close>

definition request_bad_host :: request where
  "request_bad_host =
     \<lparr>url = Some ''/voice'', host = Some ''a b'',
      sec_websocket_key = Some ''dGhlIHNhbXBsZSBub25jZQ=='',
      sec_websocket_version = Some ''13''\<rparr>"

section \<open>Properties of the decoder\<close>

subsection \<open>The loop body reads only the bytes of its frame\<close>

lemma subarray_take_eq:
  assumes "take e b' = take e b" "e' \<le> e"
  shows "subarray b' s e' = subarray b s e'"
proof -
  have *: "subarray x s e' = drop s (take e' (take e x))" for x :: buffer
  proof -
    have "take e' (take e x) = take e' x" using assms(2) by (simp add: min_def)
    moreover have "drop s (take e' x) = take (e' - s) (drop s x)" by (rule drop_take)
    ultimately show ?thesis by (simp add: subarray_def)
  qed
  show ?thesis using assms(1) by (simp add: *)
qed

lemma nth_take_eq:
  assumes "take e b' = take e b" "i < e"
  shows "b' ! i = b ! i"
proof -
  have "b' ! i = take e b' ! i" using assms(2) by simp
  also have "\<dots> = take e b ! i" using assms(1) by simp
  also have "\<dots> = b ! i" using assms(2) by simp
  finally show ?thesis .
qed

lemma readUInt16BE_take_eq:
  assumes "take e b' = take e b" "off + 2 \<le> e"
  shows "readUInt16BE b' off = readUInt16BE b off"
  using assms nth_take_eq [of e b' b off] nth_take_eq [of e b' b "off + 1"]
  by (simp add: readUInt16BE_def)

lemma readBigUInt64BE_take_eq:
  assumes "take e b' = take e b" "off + 8 \<le> e"
  shows "readBigUInt64BE b' off = readBigUInt64BE b off"
proof -
  have "take 8 (drop off x) = subarray x off (off + 8)" for x :: buffer
    by (simp add: subarray_def)
  then show ?thesis
    using subarray_take_eq [OF assms(1), of "off + 8" off] assms(2)
    by (simp add: readBigUInt64BE_def)
qed



lemma subarray_drop: "subarray (drop k b) s e = subarray b (k + s) (k + e)"
  by (simp add: subarray_def add.commute)

lemma readUInt16BE_drop:
  "k + off + 2 \<le> length b \<Longrightarrow> readUInt16BE (drop k b) off = readUInt16BE b (k + off)"
  by (simp add: readUInt16BE_def add.assoc)

lemma readBigUInt64BE_drop: "readBigUInt64BE (drop k b) off = readBigUInt64BE b (k + off)"
  by (simp add: readBigUInt64BE_def add.commute)

lemma parse_step_drop:
  assumes "offset + 2 \<le> length b"
  shows "parse_step b offset =
    (case parse_step (drop offset b) 0 of Push f e \<Rightarrow> Push f (offset + e) | s \<Rightarrow> s)"
proof -
  have b0: "drop offset b ! 0 = b ! offset" and b1: "drop offset b ! 1 = b ! (offset + 1)"
    using assms by simp_all
  have r16: "offset + 4 \<le> length b \<Longrightarrow> readUInt16BE (drop offset b) 2 = readUInt16BE b (offset + 2)"
    using readUInt16BE_drop [of offset 2 b] by simp
  have r64: "readBigUInt64BE (drop offset b) 2 = readBigUInt64BE b (offset + 2)"
    using readBigUInt64BE_drop [of offset b 2] by simp
  have sub: "subarray (drop offset b) s e = subarray b (offset + s) (offset + e)" for s e
    by (rule subarray_drop)
  consider (c126) "unat (b ! (offset + 1) AND 0x7f) = 126"
    | (c127) "unat (b ! (offset + 1) AND 0x7f) = 127"
    | (small) "unat (b ! (offset + 1) AND 0x7f) \<noteq> 126" "unat (b ! (offset + 1) AND 0x7f) \<noteq> 127"
    by blast
  then show ?thesis
  proof cases
    case c126
    show ?thesis
    proof (cases "offset + 4 \<le> length b")
      case True
      then show ?thesis using c126 r16 assms
        by (simp add: parse_step_def Let_def b0 b1 sub add.assoc del: add_2_eq_Suc' add_2_eq_Suc One_nat_def; arith)
    next
      case False
      then show ?thesis using c126 assms
        by (simp add: parse_step_def Let_def b0 b1 del: add_2_eq_Suc' add_2_eq_Suc One_nat_def; arith)
    qed
  next
    case c127
    then show ?thesis using assms
      by (simp add: parse_step_def Let_def b0 b1 sub r64 add.assoc del: add_2_eq_Suc' add_2_eq_Suc One_nat_def; arith)
  next
    case small
    then show ?thesis using assms
      by (simp add: parse_step_def Let_def b0 b1 sub add.assoc del: add_2_eq_Suc' add_2_eq_Suc One_nat_def; arith)
  qed
qed

lemma prepend_frames_simps [simp]:
  "prepend_frames fs (Inl e) = Inl e"
  "prepend_frames fs (Inr (gs, rest)) = Inr (fs @ gs, rest)"
  by (simp_all add: prepend_frames_def)

lemma prepend_frames_append:
  "prepend_frames fs (prepend_frames gs r) = prepend_frames (fs @ gs) r"
  by (cases r) (auto simp: prepend_frames_def)

lemma prepend_frames_Nil [simp]: "prepend_frames [] r = r"
  by (cases r) (auto simp: prepend_frames_def)

lemma subarray_to_end [simp]: "subarray b offset (length b) = drop offset b"
  by (simp add: subarray_def)

lemma parse_loop_short:
  "\<not> offset + 2 \<le> length b \<Longrightarrow> parse_loop b offset fs = Inr (fs, drop offset b)"
  by (simp add: parse_loop.simps [of b offset])

lemma parse_loop_Throw:
  "offset + 2 \<le> length b \<Longrightarrow> parse_step b offset = Throw e \<Longrightarrow> parse_loop b offset fs = Inl e"
  by (simp add: parse_loop.simps [of b offset])

lemma parse_loop_Break:
  "offset + 2 \<le> length b \<Longrightarrow> parse_step b offset = Break
    \<Longrightarrow> parse_loop b offset fs = Inr (fs, drop offset b)"
  by (simp add: parse_loop.simps [of b offset])

lemma parse_loop_Push:
  "offset + 2 \<le> length b \<Longrightarrow> parse_step b offset = Push f e
    \<Longrightarrow> parse_loop b offset fs = parse_loop b e (fs @ [f])"
  by (simp add: parse_loop.simps [of b offset])

lemma parse_loop_acc:
  "parse_loop b offset (fs @ gs) = prepend_frames fs (parse_loop b offset gs)"
proof (induction b offset gs arbitrary: fs rule: parse_loop.induct)
  case (1 buffer offset frames)
  show ?case
  proof (cases "offset + 2 \<le> length buffer")
    case False
    then show ?thesis by (simp add: parse_loop_short)
  next
    case True
    show ?thesis
    proof (cases "parse_step buffer offset")
      case (Throw e)
      then show ?thesis using True by (simp add: parse_loop_Throw)
    next
      case Break
      then show ?thesis using True by (simp add: parse_loop_Break)
    next
      case (Push f e)
      then show ?thesis
        using True "1.IH" [OF True Push, of fs]
        by (simp add: parse_loop_Push [OF True Push])
    qed
  qed
qed

lemma parse_loop_acc_Nil:
  "parse_loop b offset fs = prepend_frames fs (parse_loop b offset [])"
  using parse_loop_acc [of b offset fs "[]"] by simp

lemma parse_loop_drop:
  "offset \<le> length b \<Longrightarrow> parse_loop b offset fs = parse_loop (drop offset b) 0 fs"
proof (induction "length b - offset" arbitrary: b offset fs rule: less_induct)
  case less
  show ?case
  proof (cases "offset + 2 \<le> length b")
    case False
    then have F': "\<not> 0 + 2 \<le> length (drop offset b)" by simp
    show ?thesis
      by (simp only: parse_loop_short [OF False] parse_loop_short [OF F'] drop_0)
  next
    case True
    then have True': "0 + 2 \<le> length (drop offset b)" by simp
    note step = parse_step_drop [OF True]
    show ?thesis
    proof (cases "parse_step (drop offset b) 0")
      case (Throw e)
      then have T: "parse_step b offset = Throw e" using step by simp
      show ?thesis
        by (simp only: parse_loop_Throw [OF True T] parse_loop_Throw [OF True' Throw])
    next
      case Break
      then have B: "parse_step b offset = Break" using step by simp
      show ?thesis
        by (simp only: parse_loop_Break [OF True B] parse_loop_Break [OF True' Break] drop_0)
    next
      case (Push f e)
      then have P: "parse_step b offset = Push f (offset + e)" using step by simp
      from parse_step_Push_bounds [OF Push] True have e: "2 \<le> e" "offset + e \<le> length b"
        by auto
      have "parse_loop b (offset + e) (fs @ [f]) = parse_loop (drop (offset + e) b) 0 (fs @ [f])"
        using e by (intro less.hyps) auto
      moreover have "parse_loop (drop offset b) e (fs @ [f])
          = parse_loop (drop e (drop offset b)) 0 (fs @ [f])"
        using e True by (intro less.hyps) auto
      moreover have "drop e (drop offset b) = drop (offset + e) b"
        by (simp add: add.commute)
      ultimately show ?thesis
        by (simp only: parse_loop_Push [OF True P] parse_loop_Push [OF True' Push])
    qed
  qed
qed





subsection \<open>Header bits and big-endian lengths\<close>

lemma and_7f: "unat ((w::byte) AND 0x7f) = unat w mod 128"
proof -
  have "(0x7f::byte) = mask 7" by (simp add: mask_eq_exp_minus_1)
  then have "w AND 0x7f = take_bit 7 w" by (simp add: take_bit_eq_mask)
  moreover have "unat (take_bit 7 w) = take_bit 7 (unat w)" by (rule unsigned_take_bit_eq)
  moreover have "take_bit 7 (unat w) = unat w mod 128" by (simp add: take_bit_eq_mod)
  ultimately show ?thesis by (simp only:)
qed

lemma and_0f: "unat ((w::byte) AND 0x0f) = unat w mod 16"
proof -
  have "(0x0f::byte) = mask 4" by (simp add: mask_eq_exp_minus_1)
  then have "w AND 0x0f = take_bit 4 w" by (simp add: take_bit_eq_mask)
  moreover have "unat (take_bit 4 w) = take_bit 4 (unat w)" by (rule unsigned_take_bit_eq)
  moreover have "take_bit 4 (unat w) = unat w mod 16" by (simp add: take_bit_eq_mod)
  ultimately show ?thesis by (simp only:)
qed

lemma and_80: "(w::byte) AND 0x80 = 0 \<longleftrightarrow> \<not> bit w 7"
proof -
  have "(0x80::byte) = 2 ^ 7" by simp
  then show ?thesis by (simp only: and_exp_eq_0_iff_not_bit)
qed

lemma bit7_of_nat: "bit (of_nat n :: byte) 7 \<longleftrightarrow> bit n 7"
  by (simp add: bit_of_nat_iff)

lemma bit7_small: "n < 128 \<Longrightarrow> \<not> bit (n::nat) 7"
  by (simp add: bit_iff_odd)

lemma bit7_or: "bit ((0x80::nat) OR opc) 7"
proof -
  have "bit (128::nat) 7" by (simp add: bit_iff_odd)
  then show ?thesis by (simp add: bit_or_iff)
qed

lemma or_80_mod: "((0x80::nat) OR opc) mod 16 = opc mod 16"
proof -
  have "take_bit 4 ((0x80::nat) OR opc) = take_bit 4 (0x80::nat) OR take_bit 4 opc"
    by (simp add: take_bit_or)
  also have "take_bit 4 (0x80::nat) = 0" by (simp add: take_bit_eq_mod)
  finally show ?thesis by (simp add: take_bit_eq_mod)
qed

lemma b0_opcode: "opc < 16 \<Longrightarrow> unat ((of_nat (0x80 OR opc) :: byte) AND 0x0f) = opc"
proof -
  assume "opc < 16"
  have "unat ((of_nat (0x80 OR opc) :: byte) AND 0x0f) = ((0x80 OR opc) mod 256) mod 16"
    by (simp add: and_0f unat_of_nat)
  also have "\<dots> = (0x80 OR opc) mod 16"
    by (simp add: mod_mod_cancel)
  finally show ?thesis using \<open>opc < 16\<close> by (simp add: or_80_mod)
qed

lemma b0_fin: "(of_nat (0x80 OR opc) :: byte) AND 0x80 \<noteq> 0"
  using bit7_or [of opc] by (simp add: and_80 bit7_of_nat)

lemma b1_len: "len < 126 \<Longrightarrow> unat ((of_nat len :: byte) AND 0x7f) = len"
  by (simp add: and_7f unat_of_nat)

lemma b1_mask: "len < 126 \<Longrightarrow> (of_nat len :: byte) AND 0x80 = 0"
  using bit7_small [of len] by (simp add: and_80 bit7_of_nat)

lemma readUInt16BE_write:
  "n < 65536 \<Longrightarrow> readUInt16BE (x # y # writeUInt16BE n @ rest) 2 = n"
  by (simp add: readUInt16BE_def writeUInt16BE_def unat_of_nat numeral_2_eq_2)

lemma length_writeBigUInt64BE [simp]: "length (writeBigUInt64BE n) = 8"
  by (simp add: writeBigUInt64BE_def)

lemma be_digit: "(n div 256 ^ Suc j) * 256 + (n div 256 ^ j) mod 256 = n div 256 ^ j" for n :: nat
proof -
  have "n div 256 ^ Suc j = (n div 256 ^ j) div 256"
    by (simp only: power_Suc2 div_mult2_eq)
  then show ?thesis by simp
qed

lemma be64_value:
  assumes "n < 2 ^ 64"
  shows "foldl (\<lambda>acc x. acc * 256 + unat x) 0 (writeBigUInt64BE n) = n"
proof -
  have top: "n div 256 ^ 8 = 0" using assms by simp
  have d: "(n div 256 ^ Suc j) * 256 + (n div 256 ^ j) mod 256 = n div 256 ^ j" for j
    by (rule be_digit)
  have "foldl (\<lambda>acc x. acc * 256 + unat x) 0 (writeBigUInt64BE n)
      = (((((((n div 256 ^ 7 mod 256) * 256 + n div 256 ^ 6 mod 256) * 256 + n div 256 ^ 5 mod 256) * 256
          + n div 256 ^ 4 mod 256) * 256 + n div 256 ^ 3 mod 256) * 256 + n div 256 ^ 2 mod 256) * 256
          + n div 256 ^ 1 mod 256) * 256 + n div 256 ^ 0 mod 256"
    by (simp add: writeBigUInt64BE_def unat_of_nat)
  also have "n div 256 ^ 7 mod 256 = n div 256 ^ 7"
    using d [of 7] top by simp
  also have "(n div 256 ^ 7) * 256 + n div 256 ^ 6 mod 256 = n div 256 ^ 6" using d [of 6] by simp
  also have "(n div 256 ^ 6) * 256 + n div 256 ^ 5 mod 256 = n div 256 ^ 5" using d [of 5] by simp
  also have "(n div 256 ^ 5) * 256 + n div 256 ^ 4 mod 256 = n div 256 ^ 4" using d [of 4] by simp
  also have "(n div 256 ^ 4) * 256 + n div 256 ^ 3 mod 256 = n div 256 ^ 3" using d [of 3] by simp
  also have "(n div 256 ^ 3) * 256 + n div 256 ^ 2 mod 256 = n div 256 ^ 2" using d [of 2] by simp
  also have "(n div 256 ^ 2) * 256 + n div 256 ^ 1 mod 256 = n div 256 ^ 1" using d [of 1] by simp
  also have "(n div 256 ^ 1) * 256 + n div 256 ^ 0 mod 256 = n div 256 ^ 0" using d [of 0] by simp
  finally show ?thesis by simp
qed

lemma readBigUInt64BE_write:
  "n < 2 ^ 64 \<Longrightarrow> readBigUInt64BE (x # y # writeBigUInt64BE n @ rest) 2 = n"
  using be64_value [of n] by (simp add: readBigUInt64BE_def numeral_2_eq_2)

lemma bit_length_bounds: "0 < n \<Longrightarrow> 2 ^ (bit_length n - 1) \<le> n \<and> n < 2 ^ bit_length n"
proof (induction n rule: bit_length.induct)
  case (1 n)
  show ?case
  proof (cases "n div 2 = 0")
    case True
    then have "n = 1" using "1.prems" by (auto simp: div_eq_0_iff)
    moreover have "bit_length (Suc 0) = 1"
      by (simp add: bit_length.simps [of "Suc 0"] bit_length.simps [of 0])
    ultimately show ?thesis by simp
  next
    case False
    then have pos: "0 < n div 2" by simp
    from "1.IH" [OF _ pos] "1.prems"
    have IH: "2 ^ (bit_length (n div 2) - 1) \<le> n div 2" "n div 2 < 2 ^ bit_length (n div 2)"
      by simp_all
    have bl: "bit_length n = Suc (bit_length (n div 2))"
      using "1.prems" by (simp add: bit_length.simps [of n])
    have "0 < bit_length (n div 2)"
      using pos by (simp add: bit_length.simps [of "n div 2"])
    then have "(2::nat) ^ bit_length (n div 2) = 2 * 2 ^ (bit_length (n div 2) - 1)"
      by (cases "bit_length (n div 2)") simp_all
    then show ?thesis using IH bl by simp arith
  qed
qed

lemma Number_exact: "n < 2 ^ 53 \<Longrightarrow> Number n = n"
  by (simp add: Number_def)

lemma Number_large:
  assumes "2 ^ 53 \<le> n"
  shows "2 ^ 53 \<le> Number n"
proof -
  define e where "e = bit_length n - 53"
  define q where "q = n div 2 ^ e"
  have pos: "0 < n" using assms by (simp add: less_le_trans [of 0 "2 ^ 53"])
  from bit_length_bounds [OF pos]
  have lo: "2 ^ (bit_length n - 1) \<le> n" and hi: "n < 2 ^ bit_length n" by simp_all
  have "(2::nat) ^ 53 < 2 ^ bit_length n" using assms hi by simp
  then have "53 < bit_length n"
    using power_less_imp_less_exp [of 2 53 "bit_length n"] by simp
  then have bl: "bit_length n - 1 = 52 + e" and e1: "1 \<le> e" by (simp_all add: e_def)
  have "(2::nat) ^ 52 * 2 ^ e \<le> n" using lo bl by (simp add: power_add)
  then have q52: "2 ^ 52 \<le> q"
    unfolding q_def by (simp add: less_eq_div_iff_mult_less_eq)
  have "(2::nat) ^ 1 \<le> 2 ^ e" using e1 by (intro power_increasing) simp_all
  then have e2: "(2::nat) \<le> 2 ^ e" by simp
  have "(2::nat) ^ 52 * 2 \<le> q * 2 ^ e"
    using q52 e2 by (rule mult_le_mono)
  then have "2 ^ 53 \<le> q * 2 ^ e" by simp
  moreover have "q * 2 ^ e \<le> (q + 1) * 2 ^ e" by simp
  ultimately show ?thesis
    using assms by (simp add: Number_def Let_def e_def [symmetric] q_def [symmetric])
qed

subsection \<open>Decoding an encoded frame\<close>

lemma length_frame_header:
  "length (frame_header opc len) = (if len < 126 then 2 else if len < 65536 then 4 else 10)"
  by (simp add: frame_header_def writeUInt16BE_def)

lemma parse_step_frame_bytes_small:
  assumes "opc < 16" "length data < 126"
  shows "parse_step (frame_bytes opc data @ rest) 0
    = Push \<lparr>opcode = opc, payload = data\<rparr> (length (frame_bytes opc data))"
  using b0_opcode [OF assms(1)] b0_fin [of opc] b1_len [OF assms(2)] b1_mask [OF assms(2)] assms(2)
  by (simp add: frame_bytes_def frame_header_def parse_step_def Let_def subarray_def)

lemma parse_step_frame_bytes_medium:
  assumes "opc < 16" "126 \<le> length data" "length data < 65536"
  shows "parse_step (frame_bytes opc data @ rest) 0
    = Push \<lparr>opcode = opc, payload = data\<rparr> (length (frame_bytes opc data))"
proof -
  have r: "readUInt16BE (of_nat (0x80 OR opc) # 126 # writeUInt16BE (length data) @ data @ rest) 2
        = length data"
    using assms(3) by (rule readUInt16BE_write)
  have fb: "frame_bytes opc data @ rest
      = of_nat (0x80 OR opc) # 126 # writeUInt16BE (length data) @ data @ rest"
    using assms by (simp add: frame_bytes_def frame_header_def)
  have len: "length (frame_bytes opc data) = 4 + length data"
    using assms by (simp add: frame_bytes_def frame_header_def writeUInt16BE_def)
  show ?thesis
    unfolding fb len
    using b0_opcode [OF assms(1)] b0_fin [of opc] r
    by (simp add: parse_step_def Let_def subarray_def writeUInt16BE_def
          del: add_2_eq_Suc' add_2_eq_Suc)
qed

lemma parse_step_frame_bytes_large:
  assumes "opc < 16" "65536 \<le> length data" "length data < 2 ^ 53"
  shows "parse_step (frame_bytes opc data @ rest) 0
    = Push \<lparr>opcode = opc, payload = data\<rparr> (length (frame_bytes opc data))"
proof -
  define hd8 where "hd8 = writeBigUInt64BE (length data)"
  have l8: "length hd8 = 8" by (simp add: hd8_def)
  have "length data < 2 ^ 64" using assms(3) by simp
  then have r: "readBigUInt64BE (of_nat (0x80 OR opc) # 127 # hd8 @ data @ rest) 2 = length data"
    unfolding hd8_def by (rule readBigUInt64BE_write)
  have fb: "frame_bytes opc data @ rest = of_nat (0x80 OR opc) # 127 # hd8 @ data @ rest"
    using assms by (simp add: frame_bytes_def frame_header_def hd8_def)
  have len: "length (frame_bytes opc data) = 10 + length data"
    using assms by (simp add: frame_bytes_def frame_header_def)
  show ?thesis
    unfolding fb len
    using b0_opcode [OF assms(1)] b0_fin [of opc] r l8 Number_exact [OF assms(3)]
    by (simp add: parse_step_def Let_def subarray_def del: add_2_eq_Suc' add_2_eq_Suc)
qed

lemma parse_step_frame_bytes:
  assumes "opc < 16" "length data < 2 ^ 53"
  shows "parse_step (frame_bytes opc data @ rest) 0
    = Push \<lparr>opcode = opc, payload = data\<rparr> (length (frame_bytes opc data))"
proof -
  consider (small) "length data < 126"
    | (medium) "126 \<le> length data" "length data < 65536"
    | (large) "65536 \<le> length data"
    by linarith
  then show ?thesis
  proof cases
    case small
    then show ?thesis using assms(1) by (rule parse_step_frame_bytes_small [rotated])
  next
    case medium
    then show ?thesis using assms(1) by (intro parse_step_frame_bytes_medium)
  next
    case large
    then show ?thesis using assms by (intro parse_step_frame_bytes_large)
  qed
qed

lemma parseWsFrames_frame_bytes:
  assumes "opc < 16" "length data < 2 ^ 53"
  shows "parseWsFrames (frame_bytes opc data @ rest)
    = prepend_frames [\<lparr>opcode = opc, payload = data\<rparr>] (parseWsFrames rest)"
proof -
  define b where "b = frame_bytes opc data @ rest"
  define n where "n = length (frame_bytes opc data)"
  define f where "f = \<lparr>opcode = opc, payload = data\<rparr>"
  have "2 \<le> length (frame_header opc (length data))"
    by (simp add: length_frame_header)
  then have len: "0 + 2 \<le> length b"
    by (simp add: b_def frame_bytes_def)
  have step: "parse_step b 0 = Push f n"
    unfolding b_def f_def n_def using assms by (rule parse_step_frame_bytes)
  have dr: "drop n b = rest" by (simp add: b_def n_def)
  have nb: "n \<le> length b" by (simp add: b_def n_def)
  have "parse_loop b 0 [] = parse_loop b n ([] @ [f])"
    using len step by (rule parse_loop_Push)
  also have "\<dots> = parse_loop (drop n b) 0 ([] @ [f])"
    using nb by (rule parse_loop_drop)
  also have "\<dots> = prepend_frames [f] (parse_loop rest 0 [])"
    unfolding dr using parse_loop_acc_Nil [of rest 0 "[f]"] by simp
  finally show ?thesis unfolding b_def f_def by (simp add: parseWsFrames_def)
qed

lemma parseWsFrames_Nil: "parseWsFrames [] = Inr ([], [])"
  by (simp add: parseWsFrames_def parse_loop_short)

subsection \<open>Decoding in one piece and in two\<close>




subsection \<open>Decoding a masked frame\<close>

lemma parseWsFrames_first:
  assumes "parse_step b 0 = Push f n"
  shows "parseWsFrames b = prepend_frames [f] (parseWsFrames (drop n b))"
proof -
  from parse_step_Push_bounds [OF assms] have n: "0 + 2 \<le> length b" "n \<le> length b"
    by simp_all
  have "parse_loop b 0 [] = parse_loop b n ([] @ [f])"
    using n(1) assms by (rule parse_loop_Push)
  also have "\<dots> = parse_loop (drop n b) 0 ([] @ [f])"
    using n(2) by (rule parse_loop_drop)
  also have "\<dots> = prepend_frames [f] (parse_loop (drop n b) 0 [])"
    using parse_loop_acc_Nil [of "drop n b" 0 "[f]"] by simp
  finally show ?thesis by (simp add: parseWsFrames_def)
qed

lemma subarray_mid:
  "subarray (xs @ ys @ zs) (length xs) (length xs + length ys) = ys"
  by (simp add: subarray_def)

lemma parse_step_masked:
  fixes b0 b1 :: byte
  defines "len0 \<equiv> unat (b1 AND 0x7f)"
  assumes fin: "b0 AND 0x80 \<noteq> 0" and mask: "b1 AND 0x80 \<noteq> 0"
    and ext: "length ext = (if len0 = 126 then 2 else if len0 = 127 then 8 else 0)"
    and key: "length key = 4"
    and len: "length masked =
      (if len0 = 126 then readUInt16BE (b0 # b1 # ext) 2
       else if len0 = 127 then Number (readBigUInt64BE (b0 # b1 # ext) 2)
       else len0)"
  shows "parse_step (b0 # b1 # ext @ key @ masked @ rest) 0
    = Push \<lparr>opcode = unat (b0 AND 0x0f), payload = unmask key masked\<rparr>
        (2 + length ext + 4 + length masked)"
proof -
  define hdr where "hdr = b0 # b1 # ext"
  define b where "b = hdr @ key @ masked @ rest"
  have b_eq: "b0 # b1 # ext @ key @ masked @ rest = b" by (simp add: b_def hdr_def)
  have lh: "length hdr = 2 + length ext" by (simp add: hdr_def)
  have n0: "b ! 0 = b0" and n1: "b ! 1 = b1" by (simp_all add: b_def hdr_def)
  have tk: "take (length hdr) b = take (length hdr) hdr" by (simp add: b_def)
  have r16: "len0 = 126 \<Longrightarrow> readUInt16BE b 2 = readUInt16BE hdr 2"
    using readUInt16BE_take_eq [OF tk, of 2] ext lh by simp
  have r64: "len0 = 127 \<Longrightarrow> readBigUInt64BE b 2 = readBigUInt64BE hdr 2"
    using readBigUInt64BE_take_eq [OF tk, of 2] ext lh by simp
  have k: "subarray b (length hdr) (length hdr + 4) = key"
    using subarray_mid [of hdr key "masked @ rest"] key by (simp add: b_def)
  have p: "subarray b (length hdr + 4) (length hdr + 4 + length masked) = masked"
    using subarray_mid [of "hdr @ key" masked rest] key by (simp add: b_def)
  have lb: "length b = length hdr + 4 + length masked + length rest"
    using key by (simp add: b_def)
  consider (c126) "len0 = 126" | (c127) "len0 = 127" | (small) "len0 \<noteq> 126" "len0 \<noteq> 127"
    by blast
  then have "parse_step b 0
    = Push \<lparr>opcode = unat (b0 AND 0x0f), payload = unmask key masked\<rparr>
        (length hdr + 4 + length masked)"
  proof cases
    case c126
    then have lh4: "length hdr = 4" and lm: "length masked = readUInt16BE hdr 2"
      using ext lh len by (simp_all add: hdr_def)
    show ?thesis
      using c126 fin mask r16 k p lb unfolding lh4 lm
      by (simp add: parse_step_def Let_def n0 n1 len0_def [symmetric]
          del: add_2_eq_Suc' add_2_eq_Suc One_nat_def)
  next
    case c127
    then have lh10: "length hdr = 10" and lm: "length masked = Number (readBigUInt64BE hdr 2)"
      using ext lh len by (simp_all add: hdr_def)
    show ?thesis
      using c127 fin mask r64 k p lb unfolding lh10 lm
      by (simp add: parse_step_def Let_def n0 n1 len0_def [symmetric]
          del: add_2_eq_Suc' add_2_eq_Suc One_nat_def)
  next
    case small
    then have lh2: "length hdr = 2" and lm: "length masked = len0"
      using ext lh len by (simp_all add: hdr_def)
    show ?thesis
      using small fin mask k p lb unfolding lh2 lm
      by (simp add: parse_step_def Let_def n0 n1 len0_def [symmetric]
          del: add_2_eq_Suc' add_2_eq_Suc One_nat_def)
  qed
  then show ?thesis unfolding b_eq lh by simp
qed

subsection \<open>Extended 64-bit lengths\<close>

lemma readBigUInt64BE_ext:
  "length ext = 8 \<Longrightarrow>
   readBigUInt64BE (b0 # b1 # ext @ rest) 2 = foldl (\<lambda>acc x. acc * 256 + unat x) 0 ext"
  by (simp add: readBigUInt64BE_def numeral_2_eq_2)

lemma parse_step_huge_length:
  fixes b0 b1 :: byte
  assumes fin: "b0 AND 0x80 \<noteq> 0" and l127: "unat (b1 AND 0x7f) = 127"
    and ext: "length ext = 8"
    and bytes: "length (b0 # b1 # ext @ rest) < 2 ^ 53"
    and big: "2 ^ 53 \<le> foldl (\<lambda>acc x. acc * 256 + unat x) 0 ext"
  shows "parse_step (b0 # b1 # ext @ rest) 0 = Break"
proof -
  define b where "b = b0 # b1 # ext @ rest"
  define n where "n = Number (readBigUInt64BE b 2)"
  have n0: "b ! 0 = b0" and n1: "b ! 1 = b1" by (simp_all add: b_def)
  have "readBigUInt64BE b 2 = foldl (\<lambda>acc x. acc * 256 + unat x) 0 ext"
    unfolding b_def using ext by (rule readBigUInt64BE_ext)
  then have "2 ^ 53 \<le> n"
    unfolding n_def using big by (intro Number_large) simp
  moreover have "length b < 2 ^ 53" using bytes by (simp add: b_def)
  ultimately have over: "length b < n" by simp
  have l10: "10 \<le> length b" using ext by (simp add: b_def)
  have "parse_step b 0 = Break"
    using fin l127 over l10
    by (simp add: parse_step_def Let_def n0 n1 n_def [symmetric]
        del: add_2_eq_Suc' add_2_eq_Suc One_nat_def)
  then show ?thesis by (simp add: b_def)
qed

lemma be_value_example:
  "foldl (\<lambda>acc x. acc * 256 + unat x) 0 [0x00, 0x20, 0x00, 0x00, 0x00, 0x00, 0x00, 0x01 :: byte]
     = 2 ^ 53 + 1"
  by simp

subsection \<open>What the send functions write\<close>

lemma sendWsFrame_Buf:
  "sendWsFrame s (Buf b) \<lparr>opts_opcode = Some c, opts_binary = x\<rparr>
     = s\<lparr>socket := socket s @ [Write (frame_bytes c b)]\<rparr>"
  by (simp add: sendWsFrame_def socket_write_def frame_bytes_def)

lemma sendPong_eq: "sendPong s p = s\<lparr>socket := socket s @ [Write (frame_bytes 0xA p)]\<rparr>"
  by (simp add: sendPong_def sendWsFrame_Buf)

lemma sendJson_eq:
  "sendJson s obj = s\<lparr>socket := socket s @ [Write (frame_bytes 1 (utf8 (JSON_stringify obj)))]\<rparr>"
  by (simp add: sendJson_def sendWsFrame_def socket_write_def frame_bytes_def Let_def)

lemma upstream_open_sendPong [simp]: "upstream_open (sendPong s p) = upstream_open s"
  by (simp add: sendPong_eq upstream_open_def)

lemma parseWsFrames_one_frame:
  assumes "opc < 16" "length p < 2 ^ 53"
  shows "parseWsFrames (frame_bytes opc p) = Inr ([\<lparr>opcode = opc, payload = p\<rparr>], [])"
proof -
  have "parseWsFrames (frame_bytes opc p @ [])
      = prepend_frames [\<lparr>opcode = opc, payload = p\<rparr>] (parseWsFrames [])"
    using assms by (rule parseWsFrames_frame_bytes)
  then show ?thesis by (simp add: parseWsFrames_Nil)
qed

subsection \<open>Closing both transports\<close>







subsection \<open>Fragmented frames and error messages\<close>




lemma utf8_append: "utf8 (xs @ ys) = utf8 xs @ utf8 ys"
  by (simp add: utf8_def)

lemma length_utf8 [simp]: "length (utf8 t) = length t"
  by (simp add: utf8_def)

lemma is_error_message_ErrorMsg:
  "is_error_message \<lparr>opcode = 1, payload = utf8 (JSON_stringify (ErrorMsg m))\<rparr>"
proof -
  define start where "start = ''{'' @ json_quote ''type'' @ '':'' @ json_quote ''error'' @ '',''
                          @ json_quote ''error'' @ '':''"
  have "JSON_stringify (ErrorMsg m) = start @ (json_quote m @ ''}'')"
    by (simp add: JSON_stringify_def start_def)
  then have "utf8 (JSON_stringify (ErrorMsg m)) = utf8 start @ utf8 (json_quote m @ ''}'')"
    by (simp only: utf8_append)
  then have "take (length (utf8 start)) (utf8 (JSON_stringify (ErrorMsg m))) = utf8 start"
    by simp
  then show ?thesis
    unfolding is_error_message_def start_def [symmetric] Let_def by simp
qed

lemma not_error_message_empty: "\<not> is_error_message \<lparr>opcode = 1, payload = []\<rparr>"
  by (simp add: is_error_message_def Let_def utf8_def)



subsection \<open>The upgrade handler\<close>

lemma sendWsFrame_empty_text:
  "sendWsFrame s (Buf []) \<lparr>opts_opcode = None, opts_binary = Some False\<rparr>
     = s\<lparr>socket := socket s @ [Write [0x81, 0x00]]\<rparr>"
  by (simp add: sendWsFrame_def socket_write_def frame_bytes_def frame_header_def)

lemma start_session_missing:
  assumes "config_missing e"
  shows "start_session rt e s
    = s\<lparr>socket := socket s @
          [Write (frame_bytes 1 (utf8 (JSON_stringify (ErrorMsg (missing_message e))))),
           Write [0x81, 0x00], End]\<rparr>"
  using assms
  by (simp add: start_session_def config_missing_def missing_message_def Let_def
      sendJson_eq sendWsFrame_empty_text socket_end_def)

lemma on_upgrade_accepted:
  assumes "sec_websocket_key req = Some key" "sec_websocket_version req = Some ''13''"
  shows "on_upgrade_parsed rt e ''/voice'' req
    = start_session rt e
        \<lparr>socket = [Write (utf8 (switching_protocols
                     (sha1_base64 rt (key @ ''258EAFA5-E914-47DA-95CA-C5AB0DC85B11'')))),
                   SetNoDelay],
         upstream = None, buf = [], connect_attempts = 0\<rparr>"
  using assms
  by (simp add: on_upgrade_parsed_def Let_def socket_write_def socket_setNoDelay_def)

lemma on_upgrade_Some:
  "request_pathname rt req = Some p \<Longrightarrow> on_upgrade rt e req = Inr (on_upgrade_parsed rt e p req)"
  by (simp add: on_upgrade_def)

lemma on_upgrade_None:
  "request_pathname rt req = None \<Longrightarrow> on_upgrade rt e req = Inl Invalid_URL"
  by (simp add: on_upgrade_def)

lemma on_upgrade_missing:
  assumes "sec_websocket_key req = Some key" "sec_websocket_version req = Some ''13''"
    "config_missing e"
  shows "on_upgrade_parsed rt e ''/voice'' req
    = \<lparr>socket = [Write (utf8 (switching_protocols
                     (sha1_base64 rt (key @ ''258EAFA5-E914-47DA-95CA-C5AB0DC85B11'')))),
                   SetNoDelay,
                   Write (frame_bytes 1 (utf8 (JSON_stringify (ErrorMsg (missing_message e))))),
                   Write [0x81, 0x00], End],
         upstream = None, buf = [], connect_attempts = 0\<rparr>"
  by (simp add: on_upgrade_accepted [OF assms(1,2)] start_session_missing [OF assms(3)])

lemma length_missing_message:
  "length (JSON_stringify (ErrorMsg (missing_message e))) < 2 ^ 53"
proof -
  have "length (JSON_stringify (ErrorMsg ''Missing XAI_API_KEY in pat/.env.local'')) = 64"
    by (simp add: JSON_stringify_def json_quote_def json_escape_def)
  moreover
  have "length (JSON_stringify (ErrorMsg ''Missing XAI_REALTIME_WS_URL in pat/.env.local'')) = 72"
    by (simp add: JSON_stringify_def json_quote_def json_escape_def)
  ultimately show ?thesis by (simp add: missing_message_def)
qed

lemma parse_missing_frames:
  "parseWsFrames (frame_bytes 1 (utf8 (JSON_stringify (ErrorMsg (missing_message e)))) @ [0x81, 0x00])
     = Inr ([\<lparr>opcode = 1, payload = utf8 (JSON_stringify (ErrorMsg (missing_message e)))\<rparr>,
             \<lparr>opcode = 1, payload = []\<rparr>], [])"
proof -
  have "length (utf8 (JSON_stringify (ErrorMsg (missing_message e)))) < 2 ^ 53"
    using length_missing_message [of e] by (simp only: length_utf8)
  then have "parseWsFrames (frame_bytes 1 (utf8 (JSON_stringify (ErrorMsg (missing_message e)))) @ [0x81, 0x00])
      = prepend_frames [\<lparr>opcode = 1, payload = utf8 (JSON_stringify (ErrorMsg (missing_message e)))\<rparr>]
          (parseWsFrames [0x81, 0x00])"
    by (intro parseWsFrames_frame_bytes) simp_all
  moreover have "parseWsFrames [0x81, 0x00] = Inr ([\<lparr>opcode = 1, payload = []\<rparr>], [])"
    by (simp add: parseWsFrames_def parse_loop.simps parse_step_def Let_def subarray_def)
  ultimately show ?thesis by simp
qed

subsection \<open>The handshake responses\<close>

lemma socket_start_session_prefix:
  "take (length (socket s)) (socket (start_session rt e s)) = socket s"
  by (simp add: start_session_def Let_def sendJson_eq sendWsFrame_empty_text socket_end_def
      split: sum.splits)

lemma switching_protocols_text:
  "switching_protocols accept
     = ''HTTP/1.1 101 Switching Protocols'' @ crlf @ ''Upgrade: websocket'' @ crlf
       @ ''Connection: Upgrade'' @ crlf @ ''Sec-WebSocket-Accept: '' @ accept @ crlf @ crlf"
  by (simp add: switching_protocols_def join_def)

lemma bad_request_not_switching: "utf8 bad_request \<noteq> utf8 (switching_protocols accept)"
proof
  assume "utf8 bad_request = utf8 (switching_protocols accept)"
  then have "utf8 bad_request ! 9 = utf8 (switching_protocols accept) ! 9" by simp
  then show False
    by (simp add: utf8_def bad_request_def switching_protocols_text nth_append)
qed

lemma on_upgrade_wrong_path:
  "p \<noteq> ''/voice'' \<Longrightarrow>
   on_upgrade_parsed rt e p req
     = \<lparr>socket = [Destroy], upstream = None, buf = [], connect_attempts = 0\<rparr>"
  by (simp add: on_upgrade_parsed_def socket_destroy_def)

lemma on_upgrade_bad_request:
  "sec_websocket_key req = None \<or> sec_websocket_version req \<noteq> Some ''13'' \<Longrightarrow>
   on_upgrade_parsed rt e ''/voice'' req
     = \<lparr>socket = [Write (utf8 bad_request), Destroy], upstream = None, buf = [],
        connect_attempts = 0\<rparr>"
  by (auto simp: on_upgrade_parsed_def Let_def socket_destroy_def socket_write_def
      split: option.splits)

lemma on_upgrade_accepted_socket:
  assumes "sec_websocket_key req = Some key" "sec_websocket_version req = Some ''13''"
  shows "take 2 (socket (on_upgrade_parsed rt e ''/voice'' req))
    = [Write (utf8 (switching_protocols
                     (sha1_base64 rt (key @ ''258EAFA5-E914-47DA-95CA-C5AB0DC85B11'')))),
       SetNoDelay]"
proof -
  define s0 where "s0 =
      \<lparr>socket = [Write (utf8 (switching_protocols
                     (sha1_base64 rt (key @ ''258EAFA5-E914-47DA-95CA-C5AB0DC85B11'')))),
                   SetNoDelay],
         upstream = None, buf = [], connect_attempts = 0\<rparr>"
  have "take (length (socket s0)) (socket (start_session rt e s0)) = socket s0"
    by (rule socket_start_session_prefix)
  moreover have "length (socket s0) = 2" by (simp add: s0_def)
  ultimately have "take 2 (socket (start_session rt e s0)) = socket s0" by (simp only:)
  moreover have "on_upgrade_parsed rt e ''/voice'' req = start_session rt e s0"
    unfolding s0_def using assms by (rule on_upgrade_accepted)
  ultimately show ?thesis by (simp add: s0_def)
qed

lemma request_pathname_examples:
  "request_pathname runtime_example request_example = Some ''/voice''"
  "request_pathname runtime_example request_other_path = Some ''/voice/''"
  "request_pathname runtime_example request_version_8 = Some ''/voice''"
  "request_pathname runtime_example request_bad_host = None"
  by (simp_all add: request_pathname_def runtime_example_def request_example_def
      request_other_path_def request_version_8_def request_bad_host_def)

section \<open>Claims about the frame codec\<close>

text \<open>
  C1. For every frame with opcode text, binary, close, ping or pong and every payload of
  0, 125, 126, 65535 or 65536 bytes, \<open>sendWsFrame\<close> writes the unmasked encoding of the
  frame to the socket, and decoding those bytes yields exactly that one frame (same opcode,
  same payload bytes) and an empty remainder.
\<close>

theorem encode_decode_roundtrip:
  assumes "opc \<in> {1, 2, 8, 9, 10}" "length data \<in> {0, 125, 126, 65535, 65536}"
  shows "socket (sendWsFrame s (Buf data) \<lparr>opts_opcode = Some opc, opts_binary = bin\<rparr>)
      = socket s @ [Write (frame_bytes opc data)]
    \<and> parseWsFrames (frame_bytes opc data) = Inr ([\<lparr>opcode = opc, payload = data\<rparr>], [])"
proof -
  have "opc < 16" using assms(1) by auto
  moreover have "length data \<le> 65536" using assms(2) by auto
  then have "length data < 2 ^ 53" by simp
  ultimately have "parseWsFrames (frame_bytes opc data @ [])
      = prepend_frames [\<lparr>opcode = opc, payload = data\<rparr>] (parseWsFrames [])"
    by (rule parseWsFrames_frame_bytes)
  then show ?thesis by (simp add: parseWsFrames_Nil sendWsFrame_Buf)
qed

theorem encode_decode_roundtrip_witness:
  "(9::nat) \<in> {1, 2, 8, 9, 10}
   \<and> length (replicate 126 (0x41::byte)) \<in> {0, 125, 126, 65535, 65536}
   \<and> socket (sendWsFrame active_example (Buf (replicate 126 0x41))
          \<lparr>opts_opcode = Some 9, opts_binary = None\<rparr>)
       = socket active_example @ [Write (frame_bytes 9 (replicate 126 0x41))]
   \<and> parseWsFrames (frame_bytes 9 (replicate 126 0x41))
       = Inr ([\<lparr>opcode = 9, payload = replicate 126 0x41\<rparr>], [])"
proof -
  have a: "(9::nat) \<in> {1, 2, 8, 9, 10}" by simp
  have b: "length (replicate 126 (0x41::byte)) \<in> {0, 125, 126, 65535, 65536}"
    by (simp only: length_replicate) simp
  from a b encode_decode_roundtrip [OF a b, of active_example None] show ?thesis by blast
qed



text \<open>
  C8. For every complete frame whose mask flag is set (with FIN set, so that decoding goes
  on), the 4 bytes after the length fields are the mask key, and the decoded payload is the
  buffered payload with byte \<open>i\<close> XOR-ed with \<open>key[i mod 4]\<close>; decoding continues
  with the bytes after the frame. In particular the masked text frame with key
  \<open>[0x01, 0x02, 0x03, 0x04]\<close> and masked bytes \<open>[0x69, 0x6B]\<close> decodes to the
  payload \<open>hi\<close>.
\<close>

theorem masked_frame_decode:
  fixes b0 b1 :: byte
  assumes "b0 AND 0x80 \<noteq> 0" and "b1 AND 0x80 \<noteq> 0"
    and "length ext = (if unat (b1 AND 0x7f) = 126 then 2 else if unat (b1 AND 0x7f) = 127 then 8 else 0)"
    and "length key = 4"
    and "length masked =
      (if unat (b1 AND 0x7f) = 126 then readUInt16BE (b0 # b1 # ext) 2
       else if unat (b1 AND 0x7f) = 127 then Number (readBigUInt64BE (b0 # b1 # ext) 2)
       else unat (b1 AND 0x7f))"
  shows "parseWsFrames (b0 # b1 # ext @ key @ masked @ rest)
      = prepend_frames
          [\<lparr>opcode = unat (b0 AND 0x0f),
            payload = map (\<lambda>i. masked ! i XOR key ! (i mod 4)) [0..<length masked]\<rparr>]
          (parseWsFrames rest)
    \<and> parseWsFrames [0x81, 0x82, 0x01, 0x02, 0x03, 0x04, 0x69, 0x6B]
      = Inr ([\<lparr>opcode = 1, payload = utf8 ''hi''\<rparr>], [])"
proof
  have "parse_step (b0 # b1 # ext @ key @ masked @ rest) 0
    = Push \<lparr>opcode = unat (b0 AND 0x0f), payload = unmask key masked\<rparr>
        (2 + length ext + 4 + length masked)"
    using assms by (rule parse_step_masked)
  from parseWsFrames_first [OF this]
  have "parseWsFrames (b0 # b1 # ext @ key @ masked @ rest)
      = prepend_frames [\<lparr>opcode = unat (b0 AND 0x0f), payload = unmask key masked\<rparr>]
          (parseWsFrames (drop (2 + length ext + 4 + length masked)
             (b0 # b1 # ext @ key @ masked @ rest)))" .
  moreover have "drop (2 + length ext + 4 + length masked) (b0 # b1 # ext @ key @ masked @ rest)
      = rest"
  proof -
    have "length (b0 # b1 # ext @ key @ masked) = 2 + length ext + 4 + length masked"
      using assms(4) by simp
    then have "drop (2 + length ext + 4 + length masked) ((b0 # b1 # ext @ key @ masked) @ rest)
        = rest"
      by (simp only: drop_append drop_all order_refl diff_self_eq_0 drop_0 append_Nil)
    then show ?thesis by simp
  qed
  ultimately show "parseWsFrames (b0 # b1 # ext @ key @ masked @ rest)
      = prepend_frames
          [\<lparr>opcode = unat (b0 AND 0x0f),
            payload = map (\<lambda>i. masked ! i XOR key ! (i mod 4)) [0..<length masked]\<rparr>]
          (parseWsFrames rest)"
    by (simp add: unmask_def)
next
  show "parseWsFrames [0x81, 0x82, 0x01, 0x02, 0x03, 0x04, 0x69, 0x6B]
      = Inr ([\<lparr>opcode = 1, payload = utf8 ''hi''\<rparr>], [])"
    by (simp add: parseWsFrames_def parse_loop.simps parse_step_def Let_def subarray_def
        unmask_def utf8_def upt_rec)
qed

theorem masked_frame_decode_witness:
  "(0x81 :: byte) AND 0x80 \<noteq> 0 \<and> (0x82 :: byte) AND 0x80 \<noteq> 0
   \<and> length ([0x01, 0x02, 0x03, 0x04] :: buffer) = 4
   \<and> parseWsFrames (0x81 # 0x82 # [] @ [0x01, 0x02, 0x03, 0x04] @ [0x69, 0x6B] @ [0x88, 0x00])
      = prepend_frames
          [\<lparr>opcode = unat ((0x81 :: byte) AND 0x0f),
            payload = map (\<lambda>i. [0x69, 0x6B] ! i XOR [0x01, 0x02, 0x03, 0x04] ! (i mod 4))
                        [0..<length ([0x69, 0x6B] :: buffer)]\<rparr>]
          (parseWsFrames [0x88, 0x00])"
proof -
  have h1: "(0x81 :: byte) AND 0x80 \<noteq> 0" and h2: "(0x82 :: byte) AND 0x80 \<noteq> 0"
    by simp_all
  have h3: "length ([] :: buffer)
      = (if unat ((0x82 :: byte) AND 0x7f) = 126 then 2
         else if unat ((0x82 :: byte) AND 0x7f) = 127 then 8 else 0)"
    by simp
  have h4: "length ([0x01, 0x02, 0x03, 0x04] :: buffer) = 4" by simp
  have h5: "length ([0x69, 0x6B] :: buffer) =
      (if unat ((0x82 :: byte) AND 0x7f) = 126 then readUInt16BE (0x81 # 0x82 # []) 2
       else if unat ((0x82 :: byte) AND 0x7f) = 127
         then Number (readBigUInt64BE (0x81 # 0x82 # []) 2)
       else unat ((0x82 :: byte) AND 0x7f))"
    by simp
  from masked_frame_decode [OF h1 h2 h3 h4 h5, of "[0x88, 0x00]"] h1 h2 h4
  show ?thesis by blast
qed

text \<open>
  C9, as stated, fails: the 64-bit extended length is converted with \<open>Number\<close> and used
  with no validation. The frame below declares \<open>2^53 + 1\<close> bytes; the conversion yields
  \<open>2^53\<close>, and decoding neither rejects the frame nor reports an error: it returns no
  frame and keeps the bytes.
\<close>

theorem length_validation_counterexample:
  "readBigUInt64BE [0x81, 0x7F, 0x00, 0x20, 0x00, 0x00, 0x00, 0x00, 0x00, 0x01] 2 = 2 ^ 53 + 1
   \<and> Number (2 ^ 53 + 1) = 2 ^ 53
   \<and> parseWsFrames [0x81, 0x7F, 0x00, 0x20, 0x00, 0x00, 0x00, 0x00, 0x00, 0x01]
       = Inr ([], [0x81, 0x7F, 0x00, 0x20, 0x00, 0x00, 0x00, 0x00, 0x00, 0x01])"
proof (intro conjI)
  show r: "readBigUInt64BE [0x81, 0x7F, 0x00, 0x20, 0x00, 0x00, 0x00, 0x00, 0x00, 0x01] 2 = 2 ^ 53 + 1"
    by (simp add: readBigUInt64BE_def)
  show n: "Number (2 ^ 53 + 1) = 2 ^ 53"
    by (simp add: Number_def Let_def bit_length.simps)
  have "parse_step (0x81 # 0x7F # [0x00, 0x20, 0x00, 0x00, 0x00, 0x00, 0x00, 0x01] @ []) 0 = Break"
    by (rule parse_step_huge_length) (simp_all only: be_value_example, simp_all)
  then have "parse_step [0x81, 0x7F, 0x00, 0x20, 0x00, 0x00, 0x00, 0x00, 0x00, 0x01] 0 = Break"
    by simp
  then show "parseWsFrames [0x81, 0x7F, 0x00, 0x20, 0x00, 0x00, 0x00, 0x00, 0x00, 0x01]
       = Inr ([], [0x81, 0x7F, 0x00, 0x20, 0x00, 0x00, 0x00, 0x00, 0x00, 0x01])"
    by (simp add: parseWsFrames_def parse_loop_Break)
qed

text \<open>
  C9, amended. When decode reads a base length of 127 and 8 more bytes are buffered, it
  takes them as a big-endian 64-bit length and converts it to a number without validating
  it. A declared length of \<open>2^53\<close> or more (on a FIN frame, in a buffer shorter than
  \<open>2^53\<close> bytes, as every Buffer is) is not rejected: no error is raised, no frame is
  produced, and all bytes from the header on are retained as the remainder.
\<close>

theorem extended_length_not_validated:
  fixes b0 b1 :: byte
  assumes "b0 AND 0x80 \<noteq> 0" and "unat (b1 AND 0x7f) = 127"
    and "length ext = 8"
    and "length (b0 # b1 # ext @ rest) < 2 ^ 53"
    and "2 ^ 53 \<le> foldl (\<lambda>acc x. acc * 256 + unat x) 0 ext"
  shows "parseWsFrames (b0 # b1 # ext @ rest) = Inr ([], b0 # b1 # ext @ rest)"
proof -
  have "0 + 2 \<le> length (b0 # b1 # ext @ rest)" by simp
  moreover have "parse_step (b0 # b1 # ext @ rest) 0 = Break"
    using assms by (rule parse_step_huge_length)
  ultimately have "parse_loop (b0 # b1 # ext @ rest) 0 []
      = Inr ([], drop 0 (b0 # b1 # ext @ rest))"
    by (rule parse_loop_Break)
  then show ?thesis by (simp add: parseWsFrames_def)
qed

theorem extended_length_not_validated_witness:
  "(0x81 :: byte) AND 0x80 \<noteq> 0 \<and> unat ((0x7F :: byte) AND 0x7f) = 127
   \<and> length ([0x00, 0x20, 0x00, 0x00, 0x00, 0x00, 0x00, 0x01] :: buffer) = 8
   \<and> length (0x81 # 0x7F # [0x00, 0x20, 0x00, 0x00, 0x00, 0x00, 0x00, 0x01] @ [0x41 :: byte]) < 2 ^ 53
   \<and> 2 ^ 53 \<le> foldl (\<lambda>acc x. acc * 256 + unat x) 0
         [0x00, 0x20, 0x00, 0x00, 0x00, 0x00, 0x00, 0x01 :: byte]
   \<and> parseWsFrames (0x81 # 0x7F # [0x00, 0x20, 0x00, 0x00, 0x00, 0x00, 0x00, 0x01] @ [0x41])
       = Inr ([], 0x81 # 0x7F # [0x00, 0x20, 0x00, 0x00, 0x00, 0x00, 0x00, 0x01] @ [0x41])"
proof -
  have h1: "(0x81 :: byte) AND 0x80 \<noteq> 0" and h2: "unat ((0x7F :: byte) AND 0x7f) = 127"
    by simp_all
  have h3: "length ([0x00, 0x20, 0x00, 0x00, 0x00, 0x00, 0x00, 0x01] :: buffer) = 8" by simp
  have h4: "length (0x81 # 0x7F # [0x00, 0x20, 0x00, 0x00, 0x00, 0x00, 0x00, 0x01] @ [0x41 :: byte])
      < 2 ^ 53"
    by simp
  have h5: "2 ^ 53 \<le> foldl (\<lambda>acc x. acc * 256 + unat x) 0
      [0x00, 0x20, 0x00, 0x00, 0x00, 0x00, 0x00, 0x01 :: byte]"
    by (simp only: be_value_example)
  from extended_length_not_validated [OF h1 h2 h3 h4 h5] h1 h2 h3 h4 h5
  show ?thesis by blast
qed

section \<open>Claims about the relay bridge\<close>

text \<open>
  C3, as stated, fails for a session that is still connecting: the loop skips every frame,
  pings included, while the upstream is not open. A masked ping with payload \<open>hi\<close>
  arrives in a connecting session; nothing is written to the client.
\<close>

theorem ping_while_connecting_counterexample:
  "lifecycle_of connecting_example = Connecting
   \<and> parseWsFrames [0x89, 0x82, 0x01, 0x02, 0x03, 0x04, 0x69, 0x6B]
       = Inr ([\<lparr>opcode = 0x9, payload = utf8 ''hi''\<rparr>], [])
   \<and> socket (on_data connecting_example [0x89, 0x82, 0x01, 0x02, 0x03, 0x04, 0x69, 0x6B]) = []"
proof -
  have p: "parseWsFrames [0x89, 0x82, 0x01, 0x02, 0x03, 0x04, 0x69, 0x6B]
       = Inr ([\<lparr>opcode = 0x9, payload = utf8 ''hi''\<rparr>], [])"
    by (simp add: parseWsFrames_def parse_loop.simps parse_step_def Let_def subarray_def
        unmask_def utf8_def upt_rec)
  have "lifecycle_of connecting_example = Connecting"
    by (simp add: lifecycle_of_def connecting_example_def)
  moreover have "socket (on_data connecting_example [0x89, 0x82, 0x01, 0x02, 0x03, 0x04, 0x69, 0x6B]) = []"
    using p by (simp add: on_data_def connecting_example_def upstream_open_def)
  ultimately show ?thesis using p by simp
qed

text \<open>
  C3, amended. For every client ping frame with payload \<open>P\<close> processed while the
  upstream is open (state Active), the bridge writes exactly one pong frame carrying the
  identical payload \<open>P\<close> to the client, sends nothing upstream and changes nothing else
  in the session. While the upstream is not open (state Connecting), the ping is skipped
  and no pong is sent.
\<close>

theorem ping_answered_when_active:
  assumes "length p < 2 ^ 53"
  shows "(upstream_open s \<longrightarrow>
            handle_frames s (\<lparr>opcode = 0x9, payload = p\<rparr> # fs)
              = handle_frames (s\<lparr>socket := socket s @ [Write (frame_bytes 0xA p)]\<rparr>) fs
          \<and> handle_frames s [\<lparr>opcode = 0x9, payload = p\<rparr>]
              = s\<lparr>socket := socket s @ [Write (frame_bytes 0xA p)]\<rparr>
          \<and> parseWsFrames (frame_bytes 0xA p) = Inr ([\<lparr>opcode = 0xA, payload = p\<rparr>], []))
       \<and> (\<not> upstream_open s \<longrightarrow>
            handle_frames s (\<lparr>opcode = 0x9, payload = p\<rparr> # fs) = handle_frames s fs)"
proof -
  have "parseWsFrames (frame_bytes 0xA p) = Inr ([\<lparr>opcode = 0xA, payload = p\<rparr>], [])"
    using assms by (intro parseWsFrames_one_frame) simp_all
  then show ?thesis by (simp add: sendPong_eq)
qed

theorem ping_answered_when_active_witness:
  "length (utf8 ''hi'') < 2 ^ 53 \<and> upstream_open active_example
   \<and> handle_frames active_example [\<lparr>opcode = 0x9, payload = utf8 ''hi''\<rparr>]
       = active_example\<lparr>socket := socket active_example @ [Write (frame_bytes 0xA (utf8 ''hi''))]\<rparr>
   \<and> parseWsFrames (frame_bytes 0xA (utf8 ''hi''))
       = Inr ([\<lparr>opcode = 0xA, payload = utf8 ''hi''\<rparr>], [])
   \<and> \<not> upstream_open connecting_example
   \<and> handle_frames connecting_example [\<lparr>opcode = 0x9, payload = utf8 ''hi''\<rparr>]
       = handle_frames connecting_example []"
proof -
  have h: "length (utf8 ''hi'') < 2 ^ 53" by (simp add: utf8_def)
  have a: "upstream_open active_example" by (simp add: upstream_open_def active_example_def)
  have c: "\<not> upstream_open connecting_example"
    by (simp add: upstream_open_def connecting_example_def)
  from ping_answered_when_active [OF h, of active_example "[]"]
    ping_answered_when_active [OF h, of connecting_example "[]"] h a c
  show ?thesis by blast
qed






section \<open>Claims about the upgrade handler\<close>

text \<open>
  C5. For every upgrade that passes the handshake while the credential or the endpoint URL
  is absent or blank after trimming, the handler writes, after the handshake response,
  the error frame that names the missing value (the credential first) and an empty text
  frame, then ends the socket; of the frames the client receives exactly one is a
  structured error message; the WebSocket constructor is never called and no upstream
  exists.
\<close>

theorem missing_configuration_rejected:
  assumes "request_pathname rt req = Some ''/voice''" and "sec_websocket_key req = Some key"
    and "sec_websocket_version req = Some ''13''"
    and "config_missing e"
  shows "\<exists>S. on_upgrade rt e req = Inr S
    \<and> connect_attempts S = 0
    \<and> upstream S = None
    \<and> (\<exists>frames. parseWsFrames (written (drop 2 (socket S))) = Inr (frames, [])
          \<and> filter is_error_message frames
              = [\<lparr>opcode = 1, payload = utf8 (JSON_stringify (ErrorMsg (missing_message e)))\<rparr>])
    \<and> last (socket S) = End
    \<and> lifecycle_of S = Closed
    \<and> missing_message e =
        (if trim (case XAI_API_KEY e of Some v \<Rightarrow> v | None \<Rightarrow> []) = []
         then ''Missing XAI_API_KEY in pat/.env.local''
         else ''Missing XAI_REALTIME_WS_URL in pat/.env.local'')"
proof -
  define err where "err = utf8 (JSON_stringify (ErrorMsg (missing_message e)))"
  define S where "S = on_upgrade_parsed rt e ''/voice'' req"
  have up: "S
    = \<lparr>socket = [Write (utf8 (switching_protocols
                     (sha1_base64 rt (key @ ''258EAFA5-E914-47DA-95CA-C5AB0DC85B11'')))),
                   SetNoDelay, Write (frame_bytes 1 err), Write [0x81, 0x00], End],
         upstream = None, buf = [], connect_attempts = 0\<rparr>"
    unfolding err_def S_def using assms(2-4) by (rule on_upgrade_missing)
  have run: "on_upgrade rt e req = Inr S"
    unfolding S_def using assms(1) by (rule on_upgrade_Some)
  have w: "written (drop 2 (socket S)) = frame_bytes 1 err @ [0x81, 0x00]"
    by (simp add: up written_def)
  have p: "parseWsFrames (frame_bytes 1 err @ [0x81, 0x00])
      = Inr ([\<lparr>opcode = 1, payload = err\<rparr>, \<lparr>opcode = 1, payload = []\<rparr>], [])"
    unfolding err_def by (rule parse_missing_frames)
  have f: "filter is_error_message [\<lparr>opcode = 1, payload = err\<rparr>, \<lparr>opcode = 1, payload = []\<rparr>]
      = [\<lparr>opcode = 1, payload = err\<rparr>]"
    unfolding err_def
    using is_error_message_ErrorMsg [of "missing_message e"] not_error_message_empty by simp
  have fr: "\<exists>frames. parseWsFrames (written (drop 2 (socket S))) = Inr (frames, [])
          \<and> filter is_error_message frames = [\<lparr>opcode = 1, payload = err\<rparr>]"
    using w p f by (intro exI [of _ "[\<lparr>opcode = 1, payload = err\<rparr>, \<lparr>opcode = 1, payload = []\<rparr>]"]) simp
  have l: "lifecycle_of S = Closed"
    by (simp add: up lifecycle_of_def)
  have c: "connect_attempts S = 0" "upstream S = None" "last (socket S) = End"
    by (simp_all add: up)
  show ?thesis
    using run c fr l unfolding err_def
    by (intro exI [of _ S]) (simp add: missing_message_def)
qed

theorem missing_configuration_rejected_witness:
  "request_pathname runtime_example request_example = Some ''/voice''
   \<and> sec_websocket_key request_example = Some ''dGhlIHNhbXBsZSBub25jZQ==''
   \<and> sec_websocket_version request_example = Some ''13''
   \<and> config_missing env_no_url
   \<and> (\<exists>S. on_upgrade runtime_example env_no_url request_example = Inr S
        \<and> connect_attempts S = 0
        \<and> upstream S = None
        \<and> (\<exists>frames. parseWsFrames (written (drop 2 (socket S))) = Inr (frames, [])
              \<and> filter is_error_message frames
                  = [\<lparr>opcode = 1,
                       payload = utf8 (JSON_stringify (ErrorMsg (missing_message env_no_url)))\<rparr>])
        \<and> last (socket S) = End)
   \<and> missing_message env_no_url = ''Missing XAI_REALTIME_WS_URL in pat/.env.local''"
proof -
  have h1: "request_pathname runtime_example request_example = Some ''/voice''"
    by (rule request_pathname_examples)
  have h2: "sec_websocket_key request_example = Some ''dGhlIHNhbXBsZSBub25jZQ==''"
    and h3: "sec_websocket_version request_example = Some ''13''"
    by (simp_all add: request_example_def)
  have h4: "config_missing env_no_url"
    by (simp add: config_missing_def env_no_url_def trim_def)
  have k: "trim (case XAI_API_KEY env_no_url of Some v \<Rightarrow> v | None \<Rightarrow> []) \<noteq> []"
    by (simp add: env_no_url_def trim_def is_white_space_def)
  note t = missing_configuration_rejected [OF h1 h2 h3 h4]
  from t k have m: "missing_message env_no_url = ''Missing XAI_REALTIME_WS_URL in pat/.env.local''"
    by (auto simp only: if_False)
  from t h1 h2 h3 h4 m show ?thesis by blast
qed

text \<open>
  C10. For every upgrade rejected for missing configuration, the handler writes, after the
  frame of the structured error message, one more frame before it ends the socket: the
  empty text frame \<open>81 00\<close> (FIN set, opcode 1, length 0). The client receives two
  frames.
\<close>

theorem missing_configuration_two_frames:
  assumes "request_pathname rt req = Some ''/voice''" and "sec_websocket_key req = Some key"
    and "sec_websocket_version req = Some ''13''"
    and "config_missing e"
  shows "\<exists>S. on_upgrade rt e req = Inr S
    \<and> drop 2 (socket S)
      = [Write (frame_bytes 1 (utf8 (JSON_stringify (ErrorMsg (missing_message e))))),
         Write (frame_bytes 1 []), End]
    \<and> frame_bytes 1 [] = [0x81, 0x00]
    \<and> parseWsFrames (written (drop 2 (socket S)))
      = Inr ([\<lparr>opcode = 1, payload = utf8 (JSON_stringify (ErrorMsg (missing_message e)))\<rparr>,
              \<lparr>opcode = 1, payload = []\<rparr>], [])"
proof -
  define S where "S = on_upgrade_parsed rt e ''/voice'' req"
  have run: "on_upgrade rt e req = Inr S"
    unfolding S_def using assms(1) by (rule on_upgrade_Some)
  have e: "frame_bytes 1 [] = [0x81, 0x00]"
    by (simp add: frame_bytes_def frame_header_def)
  have d: "drop 2 (socket S)
      = [Write (frame_bytes 1 (utf8 (JSON_stringify (ErrorMsg (missing_message e))))),
         Write [0x81, 0x00], End]"
    unfolding S_def by (simp add: on_upgrade_missing [OF assms(2-4)])
  then have "written (drop 2 (socket S))
      = frame_bytes 1 (utf8 (JSON_stringify (ErrorMsg (missing_message e)))) @ [0x81, 0x00]"
    by (simp add: written_def)
  then show ?thesis
    using parse_missing_frames [of e] d e run by (intro exI [of _ S]) simp
qed

theorem missing_configuration_two_frames_witness:
  "request_pathname runtime_example request_example = Some ''/voice''
   \<and> sec_websocket_key request_example = Some ''dGhlIHNhbXBsZSBub25jZQ==''
   \<and> sec_websocket_version request_example = Some ''13''
   \<and> config_missing env_blank_key
   \<and> (\<exists>S. on_upgrade runtime_example env_blank_key request_example = Inr S
        \<and> drop 2 (socket S)
          = [Write (frame_bytes 1 (utf8 (JSON_stringify (ErrorMsg (missing_message env_blank_key))))),
             Write (frame_bytes 1 []), End]
        \<and> parseWsFrames (written (drop 2 (socket S)))
          = Inr ([\<lparr>opcode = 1,
                    payload = utf8 (JSON_stringify (ErrorMsg (missing_message env_blank_key)))\<rparr>,
                  \<lparr>opcode = 1, payload = []\<rparr>], []))
   \<and> missing_message env_blank_key = ''Missing XAI_API_KEY in pat/.env.local''"
proof -
  have h1: "request_pathname runtime_example request_example = Some ''/voice''"
    by (rule request_pathname_examples)
  have h2: "sec_websocket_key request_example = Some ''dGhlIHNhbXBsZSBub25jZQ==''"
    and h3: "sec_websocket_version request_example = Some ''13''"
    by (simp_all add: request_example_def)
  have k: "trim (case XAI_API_KEY env_blank_key of Some v \<Rightarrow> v | None \<Rightarrow> []) = []"
    by (simp add: env_blank_key_def trim_def is_white_space_def)
  then have h4: "config_missing env_blank_key"
    by (simp add: config_missing_def)
  have m: "missing_message env_blank_key = ''Missing XAI_API_KEY in pat/.env.local''"
    using k by (simp add: missing_message_def)
  from missing_configuration_two_frames [OF h1 h2 h3 h4] h1 h2 h3 h4 m
  show ?thesis by blast
qed

text \<open>
  The handshake on a request whose URL parses: the handler answers
  \<open>101 Switching Protocols\<close> if and only if the pathname of the URL is \<open>/voice\<close>, the
  \<open>Sec-WebSocket-Key\<close> header is present and the \<open>Sec-WebSocket-Version\<close> header is
  \<open>13\<close>; on another pathname it destroys the socket and writes nothing; on a missing key
  or another version it writes the status line \<open>HTTP/1.1 400 Bad Request\<close> and destroys
  the socket; on success the first thing it writes is the 101 response, whose accept token
  is the base64 SHA-1 digest of the key followed by
  \<open>258EAFA5-E914-47DA-95CA-C5AB0DC85B11\<close>. On a request whose URL does not parse it
  throws and makes no call on the socket.
\<close>

theorem upgrade_handshake_parsed:
  "(\<forall>p. request_pathname rt req = Some p \<and> p \<noteq> ''/voice'' \<longrightarrow>
       on_upgrade rt e req
         = Inr \<lparr>socket = [Destroy], upstream = None, buf = [], connect_attempts = 0\<rparr>)
   \<and> (request_pathname rt req = Some ''/voice''
        \<and> (sec_websocket_key req = None \<or> sec_websocket_version req \<noteq> Some ''13'') \<longrightarrow>
      on_upgrade rt e req
        = Inr \<lparr>socket = [Write (utf8 (''HTTP/1.1 400 Bad Request'' @ crlf @ crlf)), Destroy],
               upstream = None, buf = [], connect_attempts = 0\<rparr>)
   \<and> (\<forall>key. request_pathname rt req = Some ''/voice'' \<and> sec_websocket_key req = Some key
        \<and> sec_websocket_version req = Some ''13'' \<longrightarrow>
      (\<exists>S. on_upgrade rt e req = Inr S
         \<and> take 2 (socket S)
           = [Write (utf8 (''HTTP/1.1 101 Switching Protocols'' @ crlf
                @ ''Upgrade: websocket'' @ crlf
                @ ''Connection: Upgrade'' @ crlf
                @ ''Sec-WebSocket-Accept: ''
                @ sha1_base64 rt (key @ ''258EAFA5-E914-47DA-95CA-C5AB0DC85B11'') @ crlf
                @ crlf)),
              SetNoDelay]))
   \<and> (request_pathname rt req = None \<longrightarrow> on_upgrade rt e req = Inl Invalid_URL)
   \<and> ((\<exists>S accept. on_upgrade rt e req = Inr S
          \<and> hd (socket S) = Write (utf8 (switching_protocols accept)))
        \<longleftrightarrow> request_pathname rt req = Some ''/voice'' \<and> sec_websocket_key req \<noteq> None
            \<and> sec_websocket_version req = Some ''13'')"
proof (intro conjI allI impI)
  fix p
  assume "request_pathname rt req = Some p \<and> p \<noteq> ''/voice''"
  then show "on_upgrade rt e req
      = Inr \<lparr>socket = [Destroy], upstream = None, buf = [], connect_attempts = 0\<rparr>"
    by (simp add: on_upgrade_Some on_upgrade_wrong_path)
next
  assume "request_pathname rt req = Some ''/voice''
      \<and> (sec_websocket_key req = None \<or> sec_websocket_version req \<noteq> Some ''13'')"
  then show "on_upgrade rt e req
      = Inr \<lparr>socket = [Write (utf8 (''HTTP/1.1 400 Bad Request'' @ crlf @ crlf)), Destroy],
             upstream = None, buf = [], connect_attempts = 0\<rparr>"
    using on_upgrade_bad_request [of req rt e]
    by (simp add: on_upgrade_Some bad_request_def)
next
  fix key
  assume a: "request_pathname rt req = Some ''/voice'' \<and> sec_websocket_key req = Some key
      \<and> sec_websocket_version req = Some ''13''"
  then have "take 2 (socket (on_upgrade_parsed rt e ''/voice'' req))
        = [Write (utf8 (''HTTP/1.1 101 Switching Protocols'' @ crlf
             @ ''Upgrade: websocket'' @ crlf
             @ ''Connection: Upgrade'' @ crlf
             @ ''Sec-WebSocket-Accept: ''
             @ sha1_base64 rt (key @ ''258EAFA5-E914-47DA-95CA-C5AB0DC85B11'') @ crlf
             @ crlf)),
           SetNoDelay]"
    using on_upgrade_accepted_socket [of req key rt e]
    by (simp only: switching_protocols_text)
  moreover have "on_upgrade rt e req = Inr (on_upgrade_parsed rt e ''/voice'' req)"
    using a by (simp add: on_upgrade_Some)
  ultimately show "\<exists>S. on_upgrade rt e req = Inr S
         \<and> take 2 (socket S)
           = [Write (utf8 (''HTTP/1.1 101 Switching Protocols'' @ crlf
                @ ''Upgrade: websocket'' @ crlf
                @ ''Connection: Upgrade'' @ crlf
                @ ''Sec-WebSocket-Accept: ''
                @ sha1_base64 rt (key @ ''258EAFA5-E914-47DA-95CA-C5AB0DC85B11'') @ crlf
                @ crlf)),
              SetNoDelay]"
    by blast
next
  assume "request_pathname rt req = None"
  then show "on_upgrade rt e req = Inl Invalid_URL" by (rule on_upgrade_None)
next
  show "(\<exists>S accept. on_upgrade rt e req = Inr S
          \<and> hd (socket S) = Write (utf8 (switching_protocols accept)))
        \<longleftrightarrow> request_pathname rt req = Some ''/voice'' \<and> sec_websocket_key req \<noteq> None
            \<and> sec_websocket_version req = Some ''13''"
  proof (cases "request_pathname rt req")
    case None
    then show ?thesis by (simp add: on_upgrade_None)
  next
    case (Some p)
    note run = on_upgrade_Some [OF Some, of e]
    show ?thesis
    proof (cases "p = ''/voice''")
      case False
      then show ?thesis using Some by (simp add: run on_upgrade_wrong_path)
    next
      case True
      show ?thesis
      proof (cases "sec_websocket_key req = None \<or> sec_websocket_version req \<noteq> Some ''13''")
        case bad: True
        then have "hd (socket (on_upgrade_parsed rt e p req)) = Write (utf8 bad_request)"
          using on_upgrade_bad_request [of req rt e] True by simp
        then show ?thesis using bad bad_request_not_switching Some True by (auto simp: run)
      next
        case False
        then obtain key where k: "sec_websocket_key req = Some key"
          and v: "sec_websocket_version req = Some ''13''"
          by auto
        from on_upgrade_accepted_socket [OF k v, of rt e]
        have "hd (take 2 (socket (on_upgrade_parsed rt e p req)))
            = Write (utf8 (switching_protocols
                       (sha1_base64 rt (key @ ''258EAFA5-E914-47DA-95CA-C5AB0DC85B11''))))"
          using True by simp
        then have "hd (socket (on_upgrade_parsed rt e p req))
            = Write (utf8 (switching_protocols
                       (sha1_base64 rt (key @ ''258EAFA5-E914-47DA-95CA-C5AB0DC85B11''))))"
          by (simp add: hd_take)
        then show ?thesis using True Some k v run by auto
      qed
    qed
  qed
qed

theorem upgrade_handshake_parsed_examples:
  "on_upgrade runtime_example env_no_url request_other_path
     = Inr \<lparr>socket = [Destroy], upstream = None, buf = [], connect_attempts = 0\<rparr>
   \<and> on_upgrade runtime_example env_no_url request_version_8
     = Inr \<lparr>socket = [Write (utf8 (''HTTP/1.1 400 Bad Request'' @ crlf @ crlf)), Destroy],
            upstream = None, buf = [], connect_attempts = 0\<rparr>
   \<and> (\<exists>S. on_upgrade runtime_example env_no_url request_example = Inr S
        \<and> take 2 (socket S)
          = [Write (utf8 (''HTTP/1.1 101 Switching Protocols'' @ crlf
               @ ''Upgrade: websocket'' @ crlf
               @ ''Connection: Upgrade'' @ crlf
               @ ''Sec-WebSocket-Accept: ''
               @ sha1_base64 runtime_example
                   (''dGhlIHNhbXBsZSBub25jZQ=='' @ ''258EAFA5-E914-47DA-95CA-C5AB0DC85B11'') @ crlf
               @ crlf)),
             SetNoDelay])
   \<and> on_upgrade runtime_example env_no_url request_bad_host = Inl Invalid_URL"
proof -
  have a: "request_pathname runtime_example request_other_path = Some ''/voice/''
      \<and> ''/voice/'' \<noteq> ''/voice''"
    by (simp add: request_pathname_examples)
  have b: "request_pathname runtime_example request_version_8 = Some ''/voice''
      \<and> (sec_websocket_key request_version_8 = None
           \<or> sec_websocket_version request_version_8 \<noteq> Some ''13'')"
    by (simp add: request_pathname_examples) (simp add: request_version_8_def)
  have c: "request_pathname runtime_example request_example = Some ''/voice''
      \<and> sec_websocket_key request_example = Some ''dGhlIHNhbXBsZSBub25jZQ==''
      \<and> sec_websocket_version request_example = Some ''13''"
    by (simp add: request_pathname_examples) (simp add: request_example_def)
  have d: "request_pathname runtime_example request_bad_host = None"
    by (rule request_pathname_examples)
  note t1 = upgrade_handshake_parsed [of runtime_example request_other_path env_no_url]
  note t2 = upgrade_handshake_parsed [of runtime_example request_version_8 env_no_url]
  note t3 = upgrade_handshake_parsed [of runtime_example request_example env_no_url]
  note t4 = upgrade_handshake_parsed [of runtime_example request_bad_host env_no_url]
  from t1 a have r1: "on_upgrade runtime_example env_no_url request_other_path
     = Inr \<lparr>socket = [Destroy], upstream = None, buf = [], connect_attempts = 0\<rparr>"
    by blast
  from t2 b have r2: "on_upgrade runtime_example env_no_url request_version_8
     = Inr \<lparr>socket = [Write (utf8 (''HTTP/1.1 400 Bad Request'' @ crlf @ crlf)), Destroy],
            upstream = None, buf = [], connect_attempts = 0\<rparr>"
    by blast
  from t3 c have r3: "\<exists>S. on_upgrade runtime_example env_no_url request_example = Inr S
        \<and> take 2 (socket S)
          = [Write (utf8 (''HTTP/1.1 101 Switching Protocols'' @ crlf
               @ ''Upgrade: websocket'' @ crlf
               @ ''Connection: Upgrade'' @ crlf
               @ ''Sec-WebSocket-Accept: ''
               @ sha1_base64 runtime_example
                   (''dGhlIHNhbXBsZSBub25jZQ=='' @ ''258EAFA5-E914-47DA-95CA-C5AB0DC85B11'') @ crlf
               @ crlf)),
             SetNoDelay]"
    by blast
  from t4 d have r4: "on_upgrade runtime_example env_no_url request_bad_host = Inl Invalid_URL"
    by blast
  from r1 r2 r3 r4 show ?thesis by blast
qed

text \<open>
  C6. The claim holds on every request whose URL parses, as shown above, and fails where
  \<open>new URL\<close> throws. A request for \<open>/voice\<close> with a key, version 13 and the
  \<open>Host\<close> header \<open>a b\<close> has the voice path, so it should be answered with 101; the
  URL constructor rejects the base \<open>http://a b\<close>, and the handler ends with that error
  before it has written anything. A request with the target \<open>//\<close> and no \<open>Host\<close>
  header has another path, so its socket should be destroyed; the URL constructor rejects
  the target, and the handler ends with that error before it has destroyed the socket.
\<close>

theorem upgrade_invalid_url_throws:
  "(URL_pathname rt ''/voice'' ''http://a b'' = None \<longrightarrow>
      on_upgrade rt e
        \<lparr>url = Some ''/voice'', host = Some ''a b'', sec_websocket_key = Some key,
         sec_websocket_version = Some ''13''\<rparr>
      = Inl Invalid_URL)
   \<and> (URL_pathname rt ''//'' ''http://localhost'' = None \<longrightarrow>
      on_upgrade rt e
        \<lparr>url = Some ''//'', host = None, sec_websocket_key = Some key,
         sec_websocket_version = Some ''13''\<rparr>
      = Inl Invalid_URL)"
  by (simp add: on_upgrade_def request_pathname_def)

theorem upgrade_invalid_url_throws_witness:
  "URL_pathname runtime_example ''/voice'' ''http://a b'' = None
   \<and> on_upgrade runtime_example env_no_url
       \<lparr>url = Some ''/voice'', host = Some ''a b'',
        sec_websocket_key = Some ''dGhlIHNhbXBsZSBub25jZQ=='',
        sec_websocket_version = Some ''13''\<rparr>
     = Inl Invalid_URL
   \<and> URL_pathname runtime_example ''//'' ''http://localhost'' = None
   \<and> on_upgrade runtime_example env_no_url
       \<lparr>url = Some ''//'', host = None,
        sec_websocket_key = Some ''dGhlIHNhbXBsZSBub25jZQ=='',
        sec_websocket_version = Some ''13''\<rparr>
     = Inl Invalid_URL"
proof -
  have h: "URL_pathname runtime_example ''/voice'' ''http://a b'' = None"
    and g: "URL_pathname runtime_example ''//'' ''http://localhost'' = None"
    by (simp_all add: runtime_example_def)
  from upgrade_invalid_url_throws [of runtime_example env_no_url "''dGhlIHNhbXBsZSBub25jZQ==''"] h g
  show ?thesis by blast
qed

end
